theory Spec2Isabelle
  imports Complex_Main "HOL-Library.Word"
begin

section \<open>The helper-thread coordinator of \<open>js/src/vm/HelperThreads.cpp\<close>\<close>

text \<open>
  This theory embeds the scheduling core of \<open>GlobalHelperThreadState\<close>: the thread-count
  policy, the admission predicates (\<open>canStart...\<close>), the per-kind selectors
  (\<open>maybeGet...\<close>), task submission, the running-task registry and the cancellation of
  Ion compilations.

  Conventions of the embedding:
  \<^item> \<open>size_t\<close> is a 64-bit word; \<open>-\<close>, \<open>+\<close> wrap around as in C++.
  \<^item> Pointers to tasks are natural numbers (addresses). The polymorphic
    \<open>HelperThreadTask*\<close> is a datatype with one constructor per task class, which is what
    \<open>is<T>()\<close> and \<open>as<T>()\<close> inspect.
  \<^item> \<open>MOZ_ASSERT\<close> is compiled out of release builds and is not part of the model;
    \<open>MOZ_RELEASE_ASSERT\<close> and an integer division by zero abort the process and are
    values of type \<open>crash\<close>.
  \<^item> All functions run with the global lock held, so each one is an atomic state
    transformer. Where the source releases the lock (\<open>wait\<close>, the body of a task), the
    model takes what the other threads do in the meantime as a parameter.
\<close>

subsection \<open>Basic types\<close>

type_synonym size_t = "64 word"

datatype crash = ReleaseAssertFailure | DivisionByZero | NullCallback

text \<open>
  The enumeration \<open>js::ThreadType\<close>. Its declaration is not part of the file; the
  constants are the ones the file names, and \<open>THREAD_TYPE_ION_FREE\<close> for the tasks of the
  Ion free list.
\<close>

datatype ThreadType =
    THREAD_TYPE_NONE
  | THREAD_TYPE_WASM_COMPILE_TIER1
  | THREAD_TYPE_WASM_COMPILE_TIER2
  | THREAD_TYPE_WASM_GENERATOR_TIER2
  | THREAD_TYPE_ION
  | THREAD_TYPE_ION_FREE
  | THREAD_TYPE_PARSE
  | THREAD_TYPE_DELAZIFY
  | THREAD_TYPE_DELAZIFY_FREE
  | THREAD_TYPE_COMPRESS
  | THREAD_TYPE_GCPARALLEL
  | THREAD_TYPE_PROMISE_TASK

datatype CompileMode = Once | Tier1 | Tier2

datatype DispatchReason = NewTask | FinishedTask

text \<open>
  A \<open>HelperThreadTask*\<close>: the class of the task and its address. An \<open>IonFreeTask\<close> holds
  the address of the compile task it frees, a wasm compile task the mode it compiles in.
\<close>

datatype HelperThreadTask =
    GCParallelTask nat
  | IonCompileTask nat
  | IonFreeTask nat
  | WasmCompileTask CompileMode nat
  | Tier2GeneratorTask nat
  | PromiseHelperTask nat
  | ParseTask nat
  | DelazifyTask nat
  | FreeDelazifyTask nat
  | SourceCompressionTask nat

text \<open>
  What the scheduler reads of an Ion compile task through \<open>task->script()\<close>,
  \<open>task->script()->jitScript()\<close> and \<open>task->isMainThreadRunningJS()\<close>, and the two flags
  it writes (\<open>alloc().lifoAlloc()->setReadOnly()/setReadWrite()\<close>, \<open>mirGen().cancel()\<close>).
\<close>

record IonCompileTaskObj =
  script :: nat
  zoneFromAnyThread :: nat
  runtimeFromAnyThread :: nat
  gcState :: nat
  warmUpCount :: "32 word"
  script_length :: size_t
  isMainThreadRunningJS :: bool
  lifoAllocReadOnly :: bool
  mirGenCancelled :: bool

text \<open>
  The members of \<open>GlobalHelperThreadState\<close> the scheduler uses. Fields carry the name
  of the accessor (\<open>ionWorklist(lock)\<close> for \<open>ionWorklist_\<close>). \<open>dispatchTaskCallback\<close> records
  whether the callback pointer is set, \<open>dispatchLog\<close> the calls made to it (it belongs to
  the host), and \<open>oomTargetThread\<close> is \<open>js::oom::simulator.targetThread()\<close>, which builds
  without \<open>DEBUG\<close> and \<open>JS_OOM_BREAKPOINT\<close> never consult. The last four fields are
  not members of the class: \<open>ionObj\<close> is the memory of the Ion compile tasks, by address,
  \<open>ionLazyLinkList\<close> and \<open>numFinishedOffThreadTasks\<close> are the two members of each
  runtime's \<open>JitRuntime\<close> that cancellation updates, by runtime, and \<open>deletedTasks\<close> lists
  the tasks that a \<open>submitTask\<close> has destroyed since the construction, in order.
\<close>

record GlobalHelperThreadState =
  cpuCount :: size_t
  threadCount :: size_t
  gcParallelThreadCount :: size_t
  totalCountRunningTasks :: size_t
  runningTaskCount :: "ThreadType \<Rightarrow> size_t"
  tasksPending :: size_t
  isInitialized :: bool
  dispatchTaskCallback :: bool
  dispatchLog :: "DispatchReason list"
  oomSimulatorBuild :: bool
  oomTargetThread :: ThreadType
  ionWorklist :: "nat list"
  ionFinishedList :: "nat list"
  ionFreeList :: "nat list"
  wasmWorklist_tier1 :: "nat list"
  wasmWorklist_tier2 :: "nat list"
  wasmTier2GeneratorWorklist :: "nat list"
  promiseHelperTasks :: "nat list"
  parseWorklist :: "nat list"
  parseFinishedList :: "nat list"
  freeDelazifyTaskVector :: "nat list"
  delazifyWorklist :: "nat list"
  compressionPendingList :: "nat list"
  compressionWorklist :: "nat list"
  compressionFinishedList :: "nat list"
  gcParallelWorklist :: "nat list"
  helperTasks :: "HelperThreadTask list"
  ionObj :: "nat \<Rightarrow> IonCompileTaskObj"
  ionLazyLinkList :: "nat \<Rightarrow> nat list"
  numFinishedOffThreadTasks :: "nat \<Rightarrow> size_t"
  deletedTasks :: "HelperThreadTask list"

subsection \<open>Thread-count policy\<close>

definition ClampDefaultCPUCount :: "size_t \<Rightarrow> size_t" where
  "ClampDefaultCPUCount cpuCount' = min cpuCount' 8"

definition ThreadCountForCPUCount :: "size_t \<Rightarrow> size_t" where
  "ThreadCountForCPUCount cpuCount' = max cpuCount' 2"

text \<open>
  The constructor. \<open>probed\<close> is the value of \<open>GetCPUCount()\<close>. The constructor leaves
  \<open>runningTaskCount\<close> to \<open>ensureInitialized\<close>, so its content \<open>uninit\<close> is a parameter, as are
  the two facts about the build and the memory \<open>mem\<close>, \<open>lazy\<close>, \<open>fin\<close> outside the class.
\<close>

definition GlobalHelperThreadState_ctor ::
  "size_t \<Rightarrow> (ThreadType \<Rightarrow> size_t) \<Rightarrow> bool \<Rightarrow> ThreadType \<Rightarrow>
   (nat \<Rightarrow> IonCompileTaskObj) \<Rightarrow> (nat \<Rightarrow> nat list) \<Rightarrow> (nat \<Rightarrow> size_t) \<Rightarrow>
   GlobalHelperThreadState" where
  "GlobalHelperThreadState_ctor probed uninit simBuild target mem lazy fin =
     (let cpuCount' = ClampDefaultCPUCount probed;
          threadCount' = ThreadCountForCPUCount cpuCount'
      in \<lparr> cpuCount = cpuCount',
           threadCount = threadCount',
           gcParallelThreadCount = threadCount',
           totalCountRunningTasks = 0,
           runningTaskCount = uninit,
           tasksPending = 0,
           isInitialized = False,
           dispatchTaskCallback = False,
           dispatchLog = [],
           oomSimulatorBuild = simBuild,
           oomTargetThread = target,
           ionWorklist = [],
           ionFinishedList = [],
           ionFreeList = [],
           wasmWorklist_tier1 = [],
           wasmWorklist_tier2 = [],
           wasmTier2GeneratorWorklist = [],
           promiseHelperTasks = [],
           parseWorklist = [],
           parseFinishedList = [],
           freeDelazifyTaskVector = [],
           delazifyWorklist = [],
           compressionPendingList = [],
           compressionWorklist = [],
           compressionFinishedList = [],
           gcParallelWorklist = [],
           helperTasks = [],
           ionObj = mem,
           ionLazyLinkList = lazy,
           numFinishedOffThreadTasks = fin,
           deletedTasks = [] \<rparr>)"

definition setCpuCount :: "size_t \<Rightarrow> GlobalHelperThreadState \<Rightarrow> GlobalHelperThreadState" where
  "setCpuCount count' s = s\<lparr> cpuCount := count', threadCount := ThreadCountForCPUCount count' \<rparr>"

text \<open>
  \<open>setDispatchTaskCallback\<close>; the stack quota it also stores plays no role in
  scheduling and is not a field of the model.
\<close>

definition setDispatchTaskCallback :: "size_t \<Rightarrow> GlobalHelperThreadState \<Rightarrow> GlobalHelperThreadState" where
  "setDispatchTaskCallback threadCount' s =
     s\<lparr> dispatchTaskCallback := True, threadCount := threadCount' \<rparr>"

subsection \<open>Thread limits\<close>

text \<open>
  The overload of \<open>checkTaskThreadLimit\<close> without \<open>isMaster\<close>, which the predicates of
  the kinds that are not master kinds call, is the call with \<open>isMaster = false\<close>.
\<close>

definition checkTaskThreadLimit ::
  "GlobalHelperThreadState \<Rightarrow> ThreadType \<Rightarrow> size_t \<Rightarrow> bool \<Rightarrow> bool" where
  "checkTaskThreadLimit s threadType maxThreads isMaster =
     (if \<not> isMaster \<and> maxThreads \<ge> threadCount s then True
      else let count' = runningTaskCount s threadType in
        if count' \<ge> maxThreads then False
        else let idle = threadCount s - totalCountRunningTasks s in
          if idle = 0 then False
          else if isMaster \<and> idle = 1 then False
          else True)"

definition IsHelperThreadSimulatingOOM :: "GlobalHelperThreadState \<Rightarrow> ThreadType \<Rightarrow> bool" where
  "IsHelperThreadSimulatingOOM s threadType =
     (if oomSimulatorBuild s then oomTargetThread s = threadType else False)"

definition maxIonCompilationThreads :: "GlobalHelperThreadState \<Rightarrow> size_t" where
  "maxIonCompilationThreads s =
     (if IsHelperThreadSimulatingOOM s THREAD_TYPE_ION then 1 else threadCount s)"

definition maxWasmCompilationThreads :: "GlobalHelperThreadState \<Rightarrow> size_t" where
  "maxWasmCompilationThreads s =
     (if IsHelperThreadSimulatingOOM s THREAD_TYPE_WASM_COMPILE_TIER1 \<or>
         IsHelperThreadSimulatingOOM s THREAD_TYPE_WASM_COMPILE_TIER2
      then 1 else min (cpuCount s) (threadCount s))"

text \<open>
  \<open>MaxTier2GeneratorTasks\<close> is declared in the class; the file pins it down with
  \<open>static_assert(GlobalHelperThreadState::MaxTier2GeneratorTasks == 1, ...)\<close>.
\<close>

definition MaxTier2GeneratorTasks :: size_t where
  "MaxTier2GeneratorTasks = 1"

definition maxWasmTier2GeneratorThreads :: "GlobalHelperThreadState \<Rightarrow> size_t" where
  "maxWasmTier2GeneratorThreads s = MaxTier2GeneratorTasks"

definition maxPromiseHelperThreads :: "GlobalHelperThreadState \<Rightarrow> size_t" where
  "maxPromiseHelperThreads s =
     (if IsHelperThreadSimulatingOOM s THREAD_TYPE_WASM_COMPILE_TIER1 \<or>
         IsHelperThreadSimulatingOOM s THREAD_TYPE_WASM_COMPILE_TIER2
      then 1 else min (cpuCount s) (threadCount s))"

definition maxParseThreads :: "GlobalHelperThreadState \<Rightarrow> size_t" where
  "maxParseThreads s =
     (if IsHelperThreadSimulatingOOM s THREAD_TYPE_PARSE then 1
      else min (cpuCount s) (threadCount s))"

definition maxCompressionThreads :: "GlobalHelperThreadState \<Rightarrow> size_t" where
  "maxCompressionThreads s =
     (if IsHelperThreadSimulatingOOM s THREAD_TYPE_COMPRESS then 1 else 1)"

definition maxGCParallelThreads :: "GlobalHelperThreadState \<Rightarrow> size_t" where
  "maxGCParallelThreads s =
     (if IsHelperThreadSimulatingOOM s THREAD_TYPE_GCPARALLEL then 1
      else gcParallelThreadCount s)"

subsection \<open>Admission predicates\<close>

text \<open>
  The accessor \<open>wasmWorklist(lock, mode)\<close> is defined in the class header. There are two
  wasm worklists, one per tier; like \<open>canStartWasmCompile\<close>, the model takes every mode
  other than \<open>Tier2\<close> to the tier-1 worklist.
\<close>

definition wasmWorklist :: "GlobalHelperThreadState \<Rightarrow> CompileMode \<Rightarrow> nat list" where
  "wasmWorklist s mode = (if mode = Tier2 then wasmWorklist_tier2 s else wasmWorklist_tier1 s)"

text \<open>
  \<open>size_t(ceil(cpuCount / 3.0))\<close>: the count is converted to \<open>double\<close>, divided by
  \<open>3.0\<close> in \<open>double\<close>, rounded up by \<open>ceil\<close> and converted back to \<open>size_t\<close>. A
  \<open>double\<close> has a significand of 53 bits; the conversion and the division each round
  their exact result to the nearest \<open>double\<close>, a tie going to the even significand
  (IEEE 754 binary64 in its default rounding mode). \<open>ceil\<close> is exact. All values lie
  between 0 and \<open>2^64\<close>, where neither overflow nor subnormal numbers occur.

  \<open>bitLength n\<close> is the number of binary digits of \<open>n\<close>, and \<open>roundTiesToEven num den\<close>
  the integer nearest to \<open>num / den\<close>. \<open>toDouble n\<close> is the \<open>double\<close> that the conversion
  of \<open>n\<close> yields, itself a natural number. For such a number \<open>d > 0\<close>, \<open>thirdExponent d\<close>
  is the exponent \<open>e\<close> with \<open>2^e \<le> d / 3 < 2^(e + 1)\<close>, and \<open>divDouble3 d\<close> is the
  \<open>double\<close> \<open>d / 3.0\<close>: the quotient rounded to a multiple of \<open>2^(e - 52)\<close>.
\<close>

fun bitLength :: "nat \<Rightarrow> nat" where
  "bitLength n = (if n = 0 then 0 else Suc (bitLength (n div 2)))"

declare bitLength.simps [simp del]

definition roundTiesToEven :: "nat \<Rightarrow> nat \<Rightarrow> nat" where
  "roundTiesToEven num den =
     (let q = num div den; r = num mod den
      in if den < 2 * r \<or> (2 * r = den \<and> odd q) then q + 1 else q)"

definition toDouble :: "nat \<Rightarrow> nat" where
  "toDouble n =
     (let bits = bitLength n
      in if bits \<le> 53 then n
         else roundTiesToEven n (2 ^ (bits - 53)) * 2 ^ (bits - 53))"

definition thirdExponent :: "nat \<Rightarrow> int" where
  "thirdExponent d =
     (if 3 \<le> d then int (bitLength (d div 3)) - 1 else if d = 2 then - 1 else - 2)"

definition divDouble3 :: "nat \<Rightarrow> real" where
  "divDouble3 d =
     (if d = 0 then 0
      else let e = thirdExponent d
        in if 52 \<le> e
           then real (roundTiesToEven d (3 * 2 ^ nat (e - 52)) * 2 ^ nat (e - 52))
           else real (roundTiesToEven (d * 2 ^ nat (52 - e)) 3) / 2 ^ nat (52 - e))"

definition physCoresAvailable :: "GlobalHelperThreadState \<Rightarrow> size_t" where
  "physCoresAvailable s = of_nat (nat \<lceil>divDouble3 (toDouble (unat (cpuCount s)))\<rceil>)"

definition canStartWasmCompile :: "GlobalHelperThreadState \<Rightarrow> CompileMode \<Rightarrow> crash + bool" where
  "canStartWasmCompile s mode =
     (if wasmWorklist s mode = [] then Inr False
      else if \<not> (cpuCount s > 1) then Inl ReleaseAssertFailure
      else
        let tier2oversubscribed = (length (wasmTier2GeneratorWorklist s) > 20);
            threads = (if mode = Tier2
                       then (if tier2oversubscribed then maxWasmCompilationThreads s
                             else physCoresAvailable s)
                       else (if tier2oversubscribed then 0
                             else maxWasmCompilationThreads s));
            threadType = (if mode = Tier2 then THREAD_TYPE_WASM_COMPILE_TIER2
                          else THREAD_TYPE_WASM_COMPILE_TIER1)
        in Inr (threads \<noteq> 0 \<and> checkTaskThreadLimit s threadType threads False))"

definition canStartWasmTier1CompileTask :: "GlobalHelperThreadState \<Rightarrow> crash + bool" where
  "canStartWasmTier1CompileTask s = canStartWasmCompile s Tier1"

definition canStartWasmTier2CompileTask :: "GlobalHelperThreadState \<Rightarrow> crash + bool" where
  "canStartWasmTier2CompileTask s = canStartWasmCompile s Tier2"

definition canStartWasmTier2GeneratorTask :: "GlobalHelperThreadState \<Rightarrow> bool" where
  "canStartWasmTier2GeneratorTask s =
     (wasmTier2GeneratorWorklist s \<noteq> [] \<and>
      checkTaskThreadLimit s THREAD_TYPE_WASM_GENERATOR_TIER2
        (maxWasmTier2GeneratorThreads s) True)"

definition canStartPromiseHelperTask :: "GlobalHelperThreadState \<Rightarrow> bool" where
  "canStartPromiseHelperTask s =
     (promiseHelperTasks s \<noteq> [] \<and>
      checkTaskThreadLimit s THREAD_TYPE_PROMISE_TASK (maxPromiseHelperThreads s) True)"

definition canStartIonCompileTask :: "GlobalHelperThreadState \<Rightarrow> bool" where
  "canStartIonCompileTask s =
     (ionWorklist s \<noteq> [] \<and>
      checkTaskThreadLimit s THREAD_TYPE_ION (maxIonCompilationThreads s) False)"

definition canStartIonFreeTask :: "GlobalHelperThreadState \<Rightarrow> bool" where
  "canStartIonFreeTask s = (ionFreeList s \<noteq> [])"

definition canStartParseTask :: "GlobalHelperThreadState \<Rightarrow> bool" where
  "canStartParseTask s =
     (parseWorklist s \<noteq> [] \<and>
      checkTaskThreadLimit s THREAD_TYPE_PARSE (maxParseThreads s) True)"

definition canStartFreeDelazifyTask :: "GlobalHelperThreadState \<Rightarrow> bool" where
  "canStartFreeDelazifyTask s =
     (freeDelazifyTaskVector s \<noteq> [] \<and>
      checkTaskThreadLimit s THREAD_TYPE_DELAZIFY_FREE (maxParseThreads s) True)"

definition canStartDelazifyTask :: "GlobalHelperThreadState \<Rightarrow> bool" where
  "canStartDelazifyTask s =
     (delazifyWorklist s \<noteq> [] \<and>
      checkTaskThreadLimit s THREAD_TYPE_DELAZIFY (maxParseThreads s) True)"

definition canStartCompressionTask :: "GlobalHelperThreadState \<Rightarrow> bool" where
  "canStartCompressionTask s =
     (compressionWorklist s \<noteq> [] \<and>
      checkTaskThreadLimit s THREAD_TYPE_COMPRESS (maxCompressionThreads s) False)"

definition canStartGCParallelTask :: "GlobalHelperThreadState \<Rightarrow> bool" where
  "canStartGCParallelTask s =
     (gcParallelWorklist s \<noteq> [] \<and>
      checkTaskThreadLimit s THREAD_TYPE_GCPARALLEL (maxGCParallelThreads s) False)"

subsection \<open>Selectors\<close>

text \<open>
  A selector returns the task it popped, or nothing (\<open>nullptr\<close>), and the state it
  leaves. The wasm worklists are FIFOs read with \<open>popCopyFront\<close>; a task taken from the
  worklist of a mode is recorded with that mode.
\<close>

type_synonym Selector =
  "GlobalHelperThreadState \<Rightarrow> crash + (HelperThreadTask option \<times> GlobalHelperThreadState)"

definition maybeGetWasmCompile :: "CompileMode \<Rightarrow> Selector" where
  "maybeGetWasmCompile mode s =
     (case canStartWasmCompile s mode of
        Inl c \<Rightarrow> Inl c
      | Inr ok \<Rightarrow>
          if \<not> ok then Inr (None, s)
          else if mode = Tier2
          then Inr (Some (WasmCompileTask mode (hd (wasmWorklist_tier2 s))),
                    s\<lparr> wasmWorklist_tier2 := tl (wasmWorklist_tier2 s) \<rparr>)
          else Inr (Some (WasmCompileTask mode (hd (wasmWorklist_tier1 s))),
                    s\<lparr> wasmWorklist_tier1 := tl (wasmWorklist_tier1 s) \<rparr>))"

definition maybeGetWasmTier1CompileTask :: Selector where
  "maybeGetWasmTier1CompileTask s = maybeGetWasmCompile Tier1 s"

definition maybeGetWasmTier2CompileTask :: Selector where
  "maybeGetWasmTier2CompileTask s = maybeGetWasmCompile Tier2 s"

definition maybeGetWasmTier2GeneratorTask :: Selector where
  "maybeGetWasmTier2GeneratorTask s =
     (if \<not> canStartWasmTier2GeneratorTask s then Inr (None, s)
      else Inr (Some (Tier2GeneratorTask (last (wasmTier2GeneratorWorklist s))),
                s\<lparr> wasmTier2GeneratorWorklist := butlast (wasmTier2GeneratorWorklist s) \<rparr>))"

definition maybeGetPromiseHelperTask :: Selector where
  "maybeGetPromiseHelperTask s =
     (if \<not> canStartPromiseHelperTask s then Inr (None, s)
      else Inr (Some (PromiseHelperTask (last (promiseHelperTasks s))),
                s\<lparr> promiseHelperTasks := butlast (promiseHelperTasks s) \<rparr>))"

text \<open>
  \<open>warmUpCount() / script()->length()\<close> divides a \<open>uint32_t\<close> by a \<open>size_t\<close>, in
  \<open>size_t\<close>.
\<close>

definition IonCompileTaskHasHigherPriority ::
  "GlobalHelperThreadState \<Rightarrow> nat \<Rightarrow> nat \<Rightarrow> crash + bool" where
  "IonCompileTaskHasHigherPriority s first second =
     (if script_length (ionObj s first) = 0 \<or> script_length (ionObj s second) = 0
      then Inl DivisionByZero
      else Inr (ucast (warmUpCount (ionObj s first)) div script_length (ionObj s first) >
                ucast (warmUpCount (ionObj s second)) div script_length (ionObj s second)))"

text \<open>
  The loop of \<open>highestPriorityPendingIonCompile\<close>: \<open>i\<close> runs over the worklist and
  \<open>index\<close> is the best candidate so far, the length of the worklist while there is none.
\<close>

function highestPriorityLoop ::
  "GlobalHelperThreadState \<Rightarrow> bool \<Rightarrow> nat \<Rightarrow> nat \<Rightarrow> crash + nat" where
  "highestPriorityLoop s checkExecutionStatus i index =
     (if i < length (ionWorklist s) then
        (if checkExecutionStatus \<and> \<not> isMainThreadRunningJS (ionObj s (ionWorklist s ! i))
         then highestPriorityLoop s checkExecutionStatus (i + 1) index
         else if i < index
         then highestPriorityLoop s checkExecutionStatus (i + 1) i
         else (case IonCompileTaskHasHigherPriority s (ionWorklist s ! i) (ionWorklist s ! index) of
                 Inl c \<Rightarrow> Inl c
               | Inr higher \<Rightarrow>
                   highestPriorityLoop s checkExecutionStatus (i + 1) (if higher then i else index)))
      else Inr index)"
  by pat_completeness auto
termination
  by (relation "measure (\<lambda>(s, c, i, index). length (ionWorklist s) - i)") auto

declare highestPriorityLoop.simps [simp del]

definition highestPriorityPendingIonCompile :: "bool \<Rightarrow> Selector" where
  "highestPriorityPendingIonCompile checkExecutionStatus s =
     (case highestPriorityLoop s checkExecutionStatus 0 (length (ionWorklist s)) of
        Inl c \<Rightarrow> Inl c
      | Inr index \<Rightarrow>
          if index = length (ionWorklist s) then Inr (None, s)
          else Inr (Some (IonCompileTask (ionWorklist s ! index)),
                    s\<lparr> ionWorklist := take index (ionWorklist s) @ drop (Suc index) (ionWorklist s) \<rparr>))"

definition maybeGetIonCompileTask :: Selector where
  "maybeGetIonCompileTask s =
     (if \<not> canStartIonCompileTask s then Inr (None, s)
      else highestPriorityPendingIonCompile True s)"

definition maybeGetLowPrioIonCompileTask :: Selector where
  "maybeGetLowPrioIonCompileTask s =
     (if \<not> canStartIonCompileTask s then Inr (None, s)
      else highestPriorityPendingIonCompile False s)"

definition maybeGetIonFreeTask :: Selector where
  "maybeGetIonFreeTask s =
     (if \<not> canStartIonFreeTask s then Inr (None, s)
      else Inr (Some (IonFreeTask (last (ionFreeList s))),
                s\<lparr> ionFreeList := butlast (ionFreeList s) \<rparr>))"

definition maybeGetParseTask :: Selector where
  "maybeGetParseTask s =
     (if \<not> canStartParseTask s then Inr (None, s)
      else Inr (Some (ParseTask (last (parseWorklist s))),
                s\<lparr> parseWorklist := butlast (parseWorklist s) \<rparr>))"

definition maybeGetFreeDelazifyTask :: Selector where
  "maybeGetFreeDelazifyTask s =
     (if freeDelazifyTaskVector s \<noteq> []
      then Inr (Some (FreeDelazifyTask (last (freeDelazifyTaskVector s))),
                s\<lparr> freeDelazifyTaskVector := butlast (freeDelazifyTaskVector s) \<rparr>)
      else Inr (None, s))"

definition maybeGetDelazifyTask :: Selector where
  "maybeGetDelazifyTask s =
     (if delazifyWorklist s = [] then Inr (None, s)
      else Inr (Some (DelazifyTask (hd (delazifyWorklist s))),
                s\<lparr> delazifyWorklist := tl (delazifyWorklist s) \<rparr>))"

definition maybeGetCompressionTask :: Selector where
  "maybeGetCompressionTask s =
     (if \<not> canStartCompressionTask s then Inr (None, s)
      else Inr (Some (SourceCompressionTask (last (compressionWorklist s))),
                s\<lparr> compressionWorklist := butlast (compressionWorklist s) \<rparr>))"

definition maybeGetGCParallelTask :: Selector where
  "maybeGetGCParallelTask s =
     (if \<not> canStartGCParallelTask s then Inr (None, s)
      else Inr (Some (GCParallelTask (hd (gcParallelWorklist s))),
                s\<lparr> gcParallelWorklist := tl (gcParallelWorklist s) \<rparr>))"

text \<open>Priority is the order of this table.\<close>

definition selectors :: "Selector list" where
  "selectors =
     [maybeGetGCParallelTask,
      maybeGetIonCompileTask,
      maybeGetWasmTier1CompileTask,
      maybeGetPromiseHelperTask,
      maybeGetParseTask,
      maybeGetFreeDelazifyTask,
      maybeGetDelazifyTask,
      maybeGetCompressionTask,
      maybeGetLowPrioIonCompileTask,
      maybeGetIonFreeTask,
      maybeGetWasmTier2CompileTask,
      maybeGetWasmTier2GeneratorTask]"

text \<open>
  The loop of \<open>findHighestPriorityTask\<close> over a table of selectors: the first task
  found is returned; a selector that finds nothing hands its state to the next one.
\<close>

fun findFirstTask :: "Selector list \<Rightarrow> Selector" where
  "findFirstTask [] s = Inr (None, s)"
| "findFirstTask (selector # rest) s =
     (case selector s of
        Inl c \<Rightarrow> Inl c
      | Inr (Some task, s') \<Rightarrow> Inr (Some task, s')
      | Inr (None, s') \<Rightarrow> findFirstTask rest s')"

definition findHighestPriorityTask :: Selector where
  "findHighestPriorityTask s = findFirstTask selectors s"

subsection \<open>Dispatch and submission\<close>

text \<open>The chain of \<open>||\<close> of \<open>canStartTasks\<close>, evaluated left to right.\<close>

definition canStartTasks :: "GlobalHelperThreadState \<Rightarrow> crash + bool" where
  "canStartTasks s =
     (if canStartGCParallelTask s \<or> canStartIonCompileTask s then Inr True
      else case canStartWasmTier1CompileTask s of
        Inl c \<Rightarrow> Inl c
      | Inr tier1 \<Rightarrow>
          (if tier1 \<or> canStartPromiseHelperTask s \<or> canStartParseTask s \<or>
              canStartFreeDelazifyTask s \<or> canStartDelazifyTask s \<or>
              canStartCompressionTask s \<or> canStartIonFreeTask s
           then Inr True
           else (case canStartWasmTier2CompileTask s of
                   Inl c \<Rightarrow> Inl c
                 | Inr tier2 \<Rightarrow> Inr (tier2 \<or> canStartWasmTier2GeneratorTask s))))"

definition dispatch ::
  "DispatchReason \<Rightarrow> GlobalHelperThreadState \<Rightarrow> crash + GlobalHelperThreadState" where
  "dispatch reason s =
     (case canStartTasks s of
        Inl c \<Rightarrow> Inl c
      | Inr can \<Rightarrow>
          if can \<and> tasksPending s < threadCount s
          then (if \<not> dispatchTaskCallback s then Inl NullCallback
                else Inr (s\<lparr> tasksPending := tasksPending s + 1,
                             dispatchLog := dispatchLog s @ [reason] \<rparr>))
          else Inr s)"

text \<open>
  Every \<open>submitTask\<close> that appends to a vector can fail in \<open>append\<close>/\<open>pushBack\<close> when the
  vector has to grow and memory is exhausted; \<open>allocOk\<close> says whether that allocation
  succeeds. A failed \<open>append\<close> leaves the vector as it was and does not move from its
  argument. The result is the returned \<open>bool\<close> and the state.

  The overloads differ in how they take the task. Wasm compile tasks, Ion compile tasks
  and promise helper tasks come as raw pointers: a failed call leaves the task to the
  caller. Tier-2 generator tasks, Ion free tasks, parse tasks, free-delazify tasks and
  compression tasks come as a \<open>UniquePtr\<close> by value: when \<open>append\<close> fails, the parameter
  still owns the task as the function returns, and its destructor deletes the task.
\<close>

type_synonym Submit =
  "GlobalHelperThreadState \<Rightarrow> crash + (bool \<times> GlobalHelperThreadState)"

definition dispatchNewTask :: Submit where
  "dispatchNewTask s =
     (case dispatch NewTask s of Inl c \<Rightarrow> Inl c | Inr s' \<Rightarrow> Inr (True, s'))"

definition submitTask_WasmCompile :: "nat \<Rightarrow> CompileMode \<Rightarrow> bool \<Rightarrow> Submit" where
  "submitTask_WasmCompile task mode allocOk s =
     (if \<not> allocOk then Inr (False, s)
      else if mode = Tier2
      then dispatchNewTask (s\<lparr> wasmWorklist_tier2 := wasmWorklist_tier2 s @ [task] \<rparr>)
      else dispatchNewTask (s\<lparr> wasmWorklist_tier1 := wasmWorklist_tier1 s @ [task] \<rparr>))"

definition submitTask_Tier2Generator :: "nat \<Rightarrow> bool \<Rightarrow> Submit" where
  "submitTask_Tier2Generator task allocOk s =
     (if \<not> allocOk then Inr (False, s\<lparr> deletedTasks := deletedTasks s @ [Tier2GeneratorTask task] \<rparr>)
      else dispatchNewTask
             (s\<lparr> wasmTier2GeneratorWorklist := wasmTier2GeneratorWorklist s @ [task] \<rparr>))"

definition submitTask_IonCompile :: "nat \<Rightarrow> bool \<Rightarrow> Submit" where
  "submitTask_IonCompile task allocOk s =
     (if \<not> allocOk then Inr (False, s)
      else dispatchNewTask
             (s\<lparr> ionWorklist := ionWorklist s @ [task],
                 ionObj := (ionObj s)(task := (ionObj s task)\<lparr> lifoAllocReadOnly := True \<rparr>) \<rparr>))"

definition submitTask_IonFree :: "nat \<Rightarrow> bool \<Rightarrow> Submit" where
  "submitTask_IonFree task allocOk s =
     (if \<not> allocOk then Inr (False, s\<lparr> deletedTasks := deletedTasks s @ [IonFreeTask task] \<rparr>)
      else dispatchNewTask (s\<lparr> ionFreeList := ionFreeList s @ [task] \<rparr>))"

text \<open>
  \<open>js::StartOffThreadIonFree\<close> wraps the compile task in a new \<open>IonFreeTask\<close> before
  it submits it; \<open>makeOk\<close> says whether \<open>MakeUnique\<close> could allocate the wrapper.
\<close>

definition StartOffThreadIonFree :: "nat \<Rightarrow> bool \<Rightarrow> bool \<Rightarrow> Submit" where
  "StartOffThreadIonFree task makeOk allocOk s =
     (if \<not> makeOk then Inr (False, s) else submitTask_IonFree task allocOk s)"

definition submitTask_Parse :: "nat \<Rightarrow> bool \<Rightarrow> Submit" where
  "submitTask_Parse task allocOk s =
     (if \<not> allocOk then Inr (False, s\<lparr> deletedTasks := deletedTasks s @ [ParseTask task] \<rparr>)
      else dispatchNewTask (s\<lparr> parseWorklist := parseWorklist s @ [task] \<rparr>))"

text \<open>
  Delazify tasks and GC-parallel tasks are linked into intrusive lists: \<open>insertBack\<close>
  allocates nothing. The first overload returns \<open>void\<close>, the second always \<open>true\<close>.
\<close>

definition submitTask_Delazify ::
  "nat \<Rightarrow> GlobalHelperThreadState \<Rightarrow> crash + GlobalHelperThreadState" where
  "submitTask_Delazify task s =
     dispatch NewTask (s\<lparr> delazifyWorklist := delazifyWorklist s @ [task] \<rparr>)"

definition submitTask_FreeDelazify :: "nat \<Rightarrow> bool \<Rightarrow> Submit" where
  "submitTask_FreeDelazify task allocOk s =
     (if \<not> allocOk then Inr (False, s\<lparr> deletedTasks := deletedTasks s @ [FreeDelazifyTask task] \<rparr>)
      else dispatchNewTask (s\<lparr> freeDelazifyTaskVector := freeDelazifyTaskVector s @ [task] \<rparr>))"

definition submitTask_Compression :: "nat \<Rightarrow> bool \<Rightarrow> Submit" where
  "submitTask_Compression task allocOk s =
     (if \<not> allocOk then Inr (False, s\<lparr> deletedTasks := deletedTasks s @ [SourceCompressionTask task] \<rparr>)
      else dispatchNewTask (s\<lparr> compressionWorklist := compressionWorklist s @ [task] \<rparr>))"

definition submitTask_GCParallel :: "nat \<Rightarrow> Submit" where
  "submitTask_GCParallel task s =
     dispatchNewTask (s\<lparr> gcParallelWorklist := gcParallelWorklist s @ [task] \<rparr>)"

definition submitTask_PromiseHelper :: "nat \<Rightarrow> bool \<Rightarrow> Submit" where
  "submitTask_PromiseHelper task allocOk s =
     (if \<not> allocOk then Inr (False, s)
      else dispatchNewTask (s\<lparr> promiseHelperTasks := promiseHelperTasks s @ [task] \<rparr>))"

text \<open>
  \<open>submitTask\<close> is overloaded on the class of the task; a submission names the overload
  and its arguments. The \<open>void\<close> overload counts as returning \<open>true\<close>.
\<close>

datatype Submission =
    SubmitWasmCompile nat CompileMode
  | SubmitTier2Generator nat
  | SubmitIonCompile nat
  | SubmitIonFree nat
  | SubmitParse nat
  | SubmitDelazify nat
  | SubmitFreeDelazify nat
  | SubmitCompression nat
  | SubmitGCParallel nat
  | SubmitPromiseHelper nat

fun submitTask :: "Submission \<Rightarrow> bool \<Rightarrow> Submit" where
  "submitTask (SubmitWasmCompile task mode) allocOk s = submitTask_WasmCompile task mode allocOk s"
| "submitTask (SubmitTier2Generator task) allocOk s = submitTask_Tier2Generator task allocOk s"
| "submitTask (SubmitIonCompile task) allocOk s = submitTask_IonCompile task allocOk s"
| "submitTask (SubmitIonFree task) allocOk s = submitTask_IonFree task allocOk s"
| "submitTask (SubmitParse task) allocOk s = submitTask_Parse task allocOk s"
| "submitTask (SubmitDelazify task) allocOk s =
     (case submitTask_Delazify task s of Inl c \<Rightarrow> Inl c | Inr s' \<Rightarrow> Inr (True, s'))"
| "submitTask (SubmitFreeDelazify task) allocOk s = submitTask_FreeDelazify task allocOk s"
| "submitTask (SubmitCompression task) allocOk s = submitTask_Compression task allocOk s"
| "submitTask (SubmitGCParallel task) allocOk s = submitTask_GCParallel task s"
| "submitTask (SubmitPromiseHelper task) allocOk s = submitTask_PromiseHelper task allocOk s"

subsection \<open>The running-task registry\<close>

text \<open>
  Modelled from the spec: the overrides of \<open>HelperThreadTask::threadType()\<close> live in
  the task classes, outside the file. The spec gives every task a fixed thread kind, the
  one its admission predicate counts; the model returns, for each class, the
  \<open>ThreadType\<close> that the \<open>canStart\<close> predicate of that class passes to
  \<open>checkTaskThreadLimit\<close>.
\<close>

fun threadType :: "HelperThreadTask \<Rightarrow> ThreadType" where
  "threadType (GCParallelTask p) = THREAD_TYPE_GCPARALLEL"
| "threadType (IonCompileTask p) = THREAD_TYPE_ION"
| "threadType (IonFreeTask p) = THREAD_TYPE_ION_FREE"
| "threadType (WasmCompileTask mode p) =
     (if mode = Tier2 then THREAD_TYPE_WASM_COMPILE_TIER2 else THREAD_TYPE_WASM_COMPILE_TIER1)"
| "threadType (Tier2GeneratorTask p) = THREAD_TYPE_WASM_GENERATOR_TIER2"
| "threadType (PromiseHelperTask p) = THREAD_TYPE_PROMISE_TASK"
| "threadType (ParseTask p) = THREAD_TYPE_PARSE"
| "threadType (DelazifyTask p) = THREAD_TYPE_DELAZIFY"
| "threadType (FreeDelazifyTask p) = THREAD_TYPE_DELAZIFY_FREE"
| "threadType (SourceCompressionTask p) = THREAD_TYPE_COMPRESS"

text \<open>
  \<open>runTaskLocked\<close> holds the lock except inside \<open>task->runHelperThreadTask(locked)\<close>,
  where the task unlocks while it works. The two halves around that call are atomic:
  \<open>runTaskLocked_begin\<close> up to the call, \<open>runTaskLocked_end\<close> after it.
  \<open>eraseIfEqual\<close> erases every entry equal to the task. \<open>js::oom::SetThreadType\<close> sets a
  thread-local variable that the scheduler does not read.
\<close>

definition runTaskLocked_begin ::
  "HelperThreadTask \<Rightarrow> GlobalHelperThreadState \<Rightarrow> GlobalHelperThreadState" where
  "runTaskLocked_begin task s =
     (let threadType' = threadType task in
      s\<lparr> helperTasks := helperTasks s @ [task],
         runningTaskCount := (runningTaskCount s)(threadType' := runningTaskCount s threadType' + 1),
         totalCountRunningTasks := totalCountRunningTasks s + 1 \<rparr>)"

definition runTaskLocked_end ::
  "HelperThreadTask \<Rightarrow> GlobalHelperThreadState \<Rightarrow> GlobalHelperThreadState" where
  "runTaskLocked_end task s =
     (let threadType' = threadType task in
      s\<lparr> helperTasks := filter (\<lambda>t. t \<noteq> task) (helperTasks s),
         totalCountRunningTasks := totalCountRunningTasks s - 1,
         runningTaskCount := (runningTaskCount s)(threadType' := runningTaskCount s threadType' - 1) \<rparr>)"

text \<open>
  The whole function, for a given effect \<open>runHelperThreadTask\<close> of the call in the
  middle (the task's own work and whatever other threads did while it had released the
  lock).
\<close>

definition runTaskLocked ::
  "(HelperThreadTask \<Rightarrow> GlobalHelperThreadState \<Rightarrow> GlobalHelperThreadState) \<Rightarrow>
   HelperThreadTask \<Rightarrow> GlobalHelperThreadState \<Rightarrow> GlobalHelperThreadState" where
  "runTaskLocked runHelperThreadTask task s =
     runTaskLocked_end task (runHelperThreadTask task (runTaskLocked_begin task s))"

text \<open>\<open>notifyAll\<close> wakes waiting threads and changes no state.\<close>

definition runOneTask ::
  "(HelperThreadTask \<Rightarrow> GlobalHelperThreadState \<Rightarrow> GlobalHelperThreadState) \<Rightarrow>
   GlobalHelperThreadState \<Rightarrow> crash + GlobalHelperThreadState" where
  "runOneTask runHelperThreadTask s =
     (case findHighestPriorityTask (s\<lparr> tasksPending := tasksPending s - 1 \<rparr>) of
        Inl c \<Rightarrow> Inl c
      | Inr (None, s1) \<Rightarrow> Inr s1
      | Inr (Some task, s1) \<Rightarrow>
          dispatch FinishedTask (runTaskLocked runHelperThreadTask task s1))"

text \<open>
  \<open>ensureInitialized\<close>: \<open>poolOk\<close> says whether starting the internal thread pool and
  reserving the registry succeed. On success the dispatch callback is set (by the caller
  beforehand or by the internal pool). A failure leaves the state uninitialised; the
  shutdown of threads it triggers is outside the model.
\<close>

definition ensureInitialized ::
  "bool \<Rightarrow> GlobalHelperThreadState \<Rightarrow> bool \<times> GlobalHelperThreadState" where
  "ensureInitialized poolOk s =
     (if isInitialized s then (True, s)
      else let s1 = s\<lparr> runningTaskCount := (\<lambda>t. 0) \<rparr> in
        if \<not> poolOk then (False, s1)
        else (True, s1\<lparr> dispatchTaskCallback := True, isInitialized := True \<rparr>))"

subsection \<open>Cancellation of Ion compilations\<close>

text \<open>
  A \<open>CompilationSelector\<close> is a variant of \<open>JSScript*\<close>, \<open>Zone*\<close>, \<open>ZonesInState\<close> and
  \<open>JSRuntime*\<close>. A script or zone selector is modelled together with the runtime that
  \<open>runtimeFromMainThread()\<close> reads through the pointer.
\<close>

datatype CompilationSelector =
    SelScript nat nat
  | SelZone nat nat
  | SelZonesInState nat nat
  | SelRuntime nat

fun GetSelectorRuntime :: "CompilationSelector \<Rightarrow> nat" where
  "GetSelectorRuntime (SelScript script' runtime') = runtime'"
| "GetSelectorRuntime (SelZone zone' runtime') = runtime'"
| "GetSelectorRuntime (SelZonesInState runtime' state') = runtime'"
| "GetSelectorRuntime (SelRuntime runtime') = runtime'"

fun IonCompileTaskMatches :: "GlobalHelperThreadState \<Rightarrow> CompilationSelector \<Rightarrow> nat \<Rightarrow> bool" where
  "IonCompileTaskMatches s (SelScript script' runtime') task = (script' = script (ionObj s task))"
| "IonCompileTaskMatches s (SelZone zone' runtime') task = (zone' = zoneFromAnyThread (ionObj s task))"
| "IonCompileTaskMatches s (SelRuntime runtime') task = (runtime' = runtimeFromAnyThread (ionObj s task))"
| "IonCompileTaskMatches s (SelZonesInState runtime' state') task =
     (runtime' = runtimeFromAnyThread (ionObj s task) \<and> state' = gcState (ionObj s task))"

text \<open>
  Modelled from the spec: the helper \<open>remove(vector, &index)\<close> is defined in the class
  header, which is not among the sources. The spec only says that cancellation removes
  the matching task from its list. The model overwrites the slot with the last element
  (unless it is the last one), drops the last slot, and steps the index back, so that the
  increment of the calling loop visits the slot again.
\<close>

definition remove_index :: "'a list \<Rightarrow> size_t \<Rightarrow> 'a list \<times> size_t" where
  "remove_index vector index =
     (butlast (if index \<noteq> of_nat (length vector) - 1
               then vector[unat index := last vector] else vector),
      index - 1)"

text \<open>
  \<open>FinishOffThreadIonCompile\<close> appends to the finished list inside an OOM-unsafe region:
  the process aborts if the append cannot allocate. The model follows the runs in which
  memory suffices.
\<close>

definition FinishOffThreadIonCompile :: "nat \<Rightarrow> GlobalHelperThreadState \<Rightarrow> GlobalHelperThreadState" where
  "FinishOffThreadIonCompile task s =
     (let rt = runtimeFromAnyThread (ionObj s task) in
      s\<lparr> ionFinishedList := ionFinishedList s @ [task],
         numFinishedOffThreadTasks :=
           (numFinishedOffThreadTasks s)(rt := numFinishedOffThreadTasks s rt + 1) \<rparr>)"

text \<open>The first loop: pending entries that match move to the finished list.\<close>

function cancelPendingLoop ::
  "CompilationSelector \<Rightarrow> size_t \<Rightarrow> GlobalHelperThreadState \<Rightarrow> GlobalHelperThreadState" where
  "cancelPendingLoop selector i s =
     (if i < of_nat (length (ionWorklist s)) then
        (let task = ionWorklist s ! unat i in
         if IonCompileTaskMatches s selector task then
           (let s1 = s\<lparr> ionObj := (ionObj s)(task := (ionObj s task)\<lparr> lifoAllocReadOnly := False \<rparr>) \<rparr>;
                s2 = FinishOffThreadIonCompile task s1;
                (worklist', i') = remove_index (ionWorklist s2) i
            in cancelPendingLoop selector (i' + 1) (s2\<lparr> ionWorklist := worklist' \<rparr>))
         else cancelPendingLoop selector (i + 1) s)
      else s)"
  by pat_completeness auto
termination
proof (relation "measures [\<lambda>(sel, i, s). length (ionWorklist s), \<lambda>(sel, i, s). 2 ^ 64 - unat i]")
  show "wf (measures [\<lambda>(sel, i, s). length (ionWorklist s),
                      \<lambda>(sel, i :: size_t, s). 2 ^ 64 - unat i])"
    by simp
next
  fix selector :: CompilationSelector and i :: size_t and s s1 s2 task x worklist' i'
  assume less: "i < of_nat (length (ionWorklist s))"
    and "task = ionWorklist s ! unat i"
    and "s1 = s\<lparr> ionObj := (ionObj s)(task := (ionObj s task)\<lparr> lifoAllocReadOnly := False \<rparr>) \<rparr>"
    and "s2 = FinishOffThreadIonCompile task s1"
    and "x = remove_index (ionWorklist s2) i"
    and "(worklist', i') = x"
  then have w: "worklist' = fst (remove_index (ionWorklist s) i)"
    by (simp add: FinishOffThreadIonCompile_def Let_def split: prod.splits) (metis fst_conv)
  from less have "ionWorklist s \<noteq> []"
    by (auto simp: word_less_nat_alt)
  then have "length worklist' < length (ionWorklist s)"
    by (simp add: w remove_index_def)
  then show "((selector, i' + 1, s2\<lparr> ionWorklist := worklist' \<rparr>), (selector, i, s))
        \<in> measures [\<lambda>(sel, i, s). length (ionWorklist s), \<lambda>(sel, i, s). 2 ^ 64 - unat i]"
    by simp
next
  fix selector :: CompilationSelector and i :: size_t and s :: GlobalHelperThreadState
  assume less: "i < of_nat (length (ionWorklist s))"
  have "unat (of_nat (length (ionWorklist s)) :: size_t) < 2 ^ 64"
    using unsigned_less [of "of_nat (length (ionWorklist s)) :: size_t"] by simp
  with less have "unat i + 1 < (2 :: nat) ^ 64"
    by (simp add: word_less_nat_alt)
  then have "unat (i + 1) = unat i + 1"
    using unat_add_lem [of i 1] by simp
  moreover have "unat i < 2 ^ 64"
    using unsigned_less [of i] by simp
  ultimately show "((selector, i + 1, s), (selector, i, s))
        \<in> measures [\<lambda>(sel, i, s). length (ionWorklist s), \<lambda>(sel, i, s). 2 ^ 64 - unat i]"
    by simp
qed

declare cancelPendingLoop.simps [simp del]

text \<open>
  Modelled from the spec: \<open>jit::FinishOffThreadTask\<close> is defined with the JIT, outside
  the file. The spec has cancellation reclaim the matching entries; of the state of the
  model, reclaiming a task touches the lazy-link list of its runtime, from which the task
  is unlinked if it is there.
\<close>

definition FinishOffThreadTask ::
  "nat \<Rightarrow> nat \<Rightarrow> GlobalHelperThreadState \<Rightarrow> GlobalHelperThreadState" where
  "FinishOffThreadTask runtime' task s =
     s\<lparr> ionLazyLinkList :=
          (ionLazyLinkList s)(runtime' := removeAll task (ionLazyLinkList s runtime')) \<rparr>"

text \<open>
  The second loop. One pass over the registry sets the cancel flag of every matching
  Ion compile task that is running; if there was one, the thread waits and starts over.
  \<open>wait\<close> releases the lock: the parameter \<open>wait\<close> is what the other threads have done to
  the state when the lock is held again. The loop need not end.
\<close>

fun cancelRunningLoop ::
  "CompilationSelector \<Rightarrow> HelperThreadTask list \<Rightarrow> GlobalHelperThreadState \<times> bool \<Rightarrow>
   GlobalHelperThreadState \<times> bool" where
  "cancelRunningLoop selector [] (s, cancelled) = (s, cancelled)"
| "cancelRunningLoop selector (helper # rest) (s, cancelled) =
     (case helper of
        IonCompileTask ionCompileTask \<Rightarrow>
          if IonCompileTaskMatches s selector ionCompileTask
          then cancelRunningLoop selector rest
                 (s\<lparr> ionObj := (ionObj s)(ionCompileTask :=
                        (ionObj s ionCompileTask)\<lparr> mirGenCancelled := True \<rparr>) \<rparr>, True)
          else cancelRunningLoop selector rest (s, cancelled)
      | _ \<Rightarrow> cancelRunningLoop selector rest (s, cancelled))"

partial_function (option) waitForInProgress ::
  "(GlobalHelperThreadState \<Rightarrow> GlobalHelperThreadState) \<Rightarrow> CompilationSelector \<Rightarrow>
   GlobalHelperThreadState \<Rightarrow> GlobalHelperThreadState option" where
  "waitForInProgress wait selector s =
     (case cancelRunningLoop selector (helperTasks s) (s, False) of
        (s1, cancelled) \<Rightarrow>
          if cancelled then waitForInProgress wait selector (wait s1) else Some s1)"

text \<open>The third loop: finished entries that match are reclaimed.\<close>

function cancelFinishedLoop ::
  "CompilationSelector \<Rightarrow> size_t \<Rightarrow> GlobalHelperThreadState \<Rightarrow> GlobalHelperThreadState" where
  "cancelFinishedLoop selector i s =
     (if i < of_nat (length (ionFinishedList s)) then
        (let task = ionFinishedList s ! unat i in
         if IonCompileTaskMatches s selector task then
           (let rt = runtimeFromAnyThread (ionObj s task);
                s1 = s\<lparr> numFinishedOffThreadTasks :=
                          (numFinishedOffThreadTasks s)(rt := numFinishedOffThreadTasks s rt - 1) \<rparr>;
                s2 = FinishOffThreadTask rt task s1;
                (finished', i') = remove_index (ionFinishedList s2) i
            in cancelFinishedLoop selector (i' + 1) (s2\<lparr> ionFinishedList := finished' \<rparr>))
         else cancelFinishedLoop selector (i + 1) s)
      else s)"
  by pat_completeness auto
termination
proof (relation "measures [\<lambda>(sel, i, s). length (ionFinishedList s), \<lambda>(sel, i, s). 2 ^ 64 - unat i]")
  show "wf (measures [\<lambda>(sel, i, s). length (ionFinishedList s),
                      \<lambda>(sel, i :: size_t, s). 2 ^ 64 - unat i])"
    by simp
next
  fix selector :: CompilationSelector and i :: size_t and s s1 s2 task rt x finished' i'
  assume less: "i < of_nat (length (ionFinishedList s))"
    and "task = ionFinishedList s ! unat i"
    and "rt = runtimeFromAnyThread (ionObj s task)"
    and "s1 = s\<lparr> numFinishedOffThreadTasks :=
                    (numFinishedOffThreadTasks s)(rt := numFinishedOffThreadTasks s rt - 1) \<rparr>"
    and "s2 = FinishOffThreadTask rt task s1"
    and "x = remove_index (ionFinishedList s2) i"
    and "(finished', i') = x"
  then have w: "finished' = fst (remove_index (ionFinishedList s) i)"
    by (simp add: FinishOffThreadTask_def split: prod.splits) (metis fst_conv)
  from less have "ionFinishedList s \<noteq> []"
    by (auto simp: word_less_nat_alt)
  then have "length finished' < length (ionFinishedList s)"
    by (simp add: w remove_index_def)
  then show "((selector, i' + 1, s2\<lparr> ionFinishedList := finished' \<rparr>), (selector, i, s))
        \<in> measures [\<lambda>(sel, i, s). length (ionFinishedList s), \<lambda>(sel, i, s). 2 ^ 64 - unat i]"
    by simp
next
  fix selector :: CompilationSelector and i :: size_t and s :: GlobalHelperThreadState
  assume less: "i < of_nat (length (ionFinishedList s))"
  have "unat (of_nat (length (ionFinishedList s)) :: size_t) < 2 ^ 64"
    using unsigned_less [of "of_nat (length (ionFinishedList s)) :: size_t"] by simp
  with less have "unat i + 1 < (2 :: nat) ^ 64"
    by (simp add: word_less_nat_alt)
  then have "unat (i + 1) = unat i + 1"
    using unat_add_lem [of i 1] by simp
  moreover have "unat i < 2 ^ 64"
    using unsigned_less [of i] by simp
  ultimately show "((selector, i + 1, s), (selector, i, s))
        \<in> measures [\<lambda>(sel, i, s). length (ionFinishedList s), \<lambda>(sel, i, s). 2 ^ 64 - unat i]"
    by simp
qed

declare cancelFinishedLoop.simps [simp del]

text \<open>
  The last loop walks the lazy-link list of the selector's runtime; \<open>next\<close> is read
  before the task may be unlinked, so the walk visits the list as it was at the start.
\<close>

fun cancelLazyLinkLoop ::
  "CompilationSelector \<Rightarrow> nat \<Rightarrow> nat list \<Rightarrow> GlobalHelperThreadState \<Rightarrow> GlobalHelperThreadState" where
  "cancelLazyLinkLoop selector runtime' [] s = s"
| "cancelLazyLinkLoop selector runtime' (task # next) s =
     (if IonCompileTaskMatches s selector task
      then cancelLazyLinkLoop selector runtime' next (FinishOffThreadTask runtime' task s)
      else cancelLazyLinkLoop selector runtime' next s)"

definition CancelOffThreadIonCompileLocked ::
  "(GlobalHelperThreadState \<Rightarrow> GlobalHelperThreadState) \<Rightarrow> CompilationSelector \<Rightarrow>
   GlobalHelperThreadState \<Rightarrow> GlobalHelperThreadState option" where
  "CancelOffThreadIonCompileLocked wait selector s =
     (if \<not> isInitialized s then Some s
      else case waitForInProgress wait selector (cancelPendingLoop selector 0 s) of
        None \<Rightarrow> None
      | Some s2 \<Rightarrow>
          (let s3 = cancelFinishedLoop selector 0 s2;
               runtime' = GetSelectorRuntime selector
           in Some (cancelLazyLinkLoop selector runtime' (ionLazyLinkList s3 runtime') s3)))"

subsection \<open>Reachable states\<close>

text \<open>
  The states the coordinator passes through, at the points where the lock is free. Before
  initialisation the thread count can be configured. Afterwards a state changes by a
  submission, by a worker that selects a task and enters it into the registry, by a
  worker that retires its task, or by any other locked operation; none of the latter
  (cancellation, the bookkeeping a task does for itself, the pickup of finished tasks)
  writes the registry, the two counters or the thread count, which is all the model
  assumes about them. Two guards state what the execution substrate guarantees: a worker
  only asks for a task while it runs none, so fewer tasks run than there are worker
  threads, and a task is owned by one container at a time, so a task taken from a
  worklist is not in the registry.
\<close>

inductive configured :: "GlobalHelperThreadState \<Rightarrow> bool" where
  constructed:
    "configured (GlobalHelperThreadState_ctor probed uninit simBuild target mem lazy fin)"
| cpuCountSet:
    "configured s \<Longrightarrow> configured (setCpuCount count' s)"
| callbackSet:
    "configured s \<Longrightarrow> configured (setDispatchTaskCallback threadCount' s)"

definition registryUntouched :: "GlobalHelperThreadState \<Rightarrow> GlobalHelperThreadState \<Rightarrow> bool" where
  "registryUntouched s s' =
     (helperTasks s' = helperTasks s \<and>
      totalCountRunningTasks s' = totalCountRunningTasks s \<and>
      runningTaskCount s' = runningTaskCount s \<and>
      threadCount s' = threadCount s)"

inductive reachable :: "GlobalHelperThreadState \<Rightarrow> bool" where
  initialized:
    "configured s0 \<Longrightarrow> ensureInitialized True s0 = (True, s) \<Longrightarrow> reachable s"
| submitted:
    "reachable s \<Longrightarrow> submitTask submission allocOk s = Inr (result, s') \<Longrightarrow> reachable s'"
| started:
    "reachable s \<Longrightarrow> totalCountRunningTasks s < threadCount s \<Longrightarrow>
     findHighestPriorityTask (s\<lparr> tasksPending := tasksPending s - 1 \<rparr>) = Inr (Some task, s1) \<Longrightarrow>
     task \<notin> set (helperTasks s) \<Longrightarrow>
     reachable (runTaskLocked_begin task s1)"
| nothingToDo:
    "reachable s \<Longrightarrow>
     findHighestPriorityTask (s\<lparr> tasksPending := tasksPending s - 1 \<rparr>) = Inr (None, s1) \<Longrightarrow>
     reachable s1"
| retired:
    "reachable s \<Longrightarrow> task \<in> set (helperTasks s) \<Longrightarrow>
     dispatch FinishedTask (runTaskLocked_end task s) = Inr s' \<Longrightarrow> reachable s'"
| otherLocked:
    "reachable s \<Longrightarrow> registryUntouched s s' \<Longrightarrow> reachable s'"

subsection \<open>Example states\<close>

text \<open>
  Concrete states on which the theorems below are exercised. \<open>exampleBoot probed\<close> is
  the coordinator after construction on a machine with \<open>probed\<close> logical CPUs and a
  successful initialisation.
\<close>

definition exampleObj :: IonCompileTaskObj where
  "exampleObj = \<lparr> script = 0, zoneFromAnyThread = 0, runtimeFromAnyThread = 0, gcState = 0,
       warmUpCount = 0, script_length = 1, isMainThreadRunningJS = True,
       lifoAllocReadOnly = False, mirGenCancelled = False \<rparr>"

definition exampleBoot :: "size_t \<Rightarrow> GlobalHelperThreadState" where
  "exampleBoot probed =
     snd (ensureInitialized True
       (GlobalHelperThreadState_ctor probed (\<lambda>t. 0) False THREAD_TYPE_NONE
          (\<lambda>p. exampleObj) (\<lambda>r. []) (\<lambda>r. 0)))"

text \<open>Two worker threads, one parse task running and another one queued.\<close>

definition exampleMasterRunning :: GlobalHelperThreadState where
  "exampleMasterRunning =
     runTaskLocked_begin (ParseTask 1) ((exampleBoot 2)\<lparr> parseWorklist := [2] \<rparr>)"

text \<open>
  Eight CPUs and eight threads, all idle; 21 tier-2 generator tasks are queued, and one
  compile task in each wasm worklist.
\<close>

definition exampleBacklog :: GlobalHelperThreadState where
  "exampleBacklog = (exampleBoot 8)\<lparr> wasmTier2GeneratorWorklist := replicate 21 0,
      wasmWorklist_tier1 := [1], wasmWorklist_tier2 := [2] \<rparr>"

text \<open>
  Eight CPUs and eight threads, no generator queued, three tier-2 compile tasks running
  and a fourth one queued.
\<close>

definition exampleThrottled :: GlobalHelperThreadState where
  "exampleThrottled = (exampleBoot 8)\<lparr> wasmWorklist_tier2 := [2],
      helperTasks := [WasmCompileTask Tier2 3, WasmCompileTask Tier2 4, WasmCompileTask Tier2 5],
      totalCountRunningTasks := 3,
      runningTaskCount := (\<lambda>t. 0)(THREAD_TYPE_WASM_COMPILE_TIER2 := 3) \<rparr>"

text \<open>
  Four threads, all idle: the state after parse task 1, and after parse tasks 1 and 2,
  were submitted to the fresh coordinator; the same for delazify tasks.
\<close>

definition exampleParseAB :: GlobalHelperThreadState where
  "exampleParseAB =
     (exampleBoot 4)\<lparr> parseWorklist := [1, 2], tasksPending := 2, dispatchLog := [NewTask, NewTask] \<rparr>"

definition exampleParseA :: GlobalHelperThreadState where
  "exampleParseA =
     (exampleBoot 4)\<lparr> parseWorklist := [1], tasksPending := 1, dispatchLog := [NewTask] \<rparr>"

definition exampleDelazifyA :: GlobalHelperThreadState where
  "exampleDelazifyA =
     (exampleBoot 4)\<lparr> delazifyWorklist := [1], tasksPending := 1, dispatchLog := [NewTask] \<rparr>"

definition exampleDelazifyAB :: GlobalHelperThreadState where
  "exampleDelazifyAB =
     (exampleBoot 4)\<lparr> delazifyWorklist := [1, 2], tasksPending := 2,
        dispatchLog := [NewTask, NewTask] \<rparr>"

text \<open>
  A selector is quiet when a call that finds nothing leaves the state as it was.
\<close>

definition quietOnNothing :: "Selector \<Rightarrow> bool" where
  "quietOnNothing selector = (\<forall>s s'. selector s = Inr (None, s') \<longrightarrow> s' = s)"

text \<open>
  The admission predicate of a task, by its class: the \<open>canStart\<close> predicate that
  \<open>canStartTasks\<close> evaluates for the kind.
\<close>

fun admissionPredicate :: "GlobalHelperThreadState \<Rightarrow> HelperThreadTask \<Rightarrow> bool" where
  "admissionPredicate s (GCParallelTask p) = canStartGCParallelTask s"
| "admissionPredicate s (IonCompileTask p) = canStartIonCompileTask s"
| "admissionPredicate s (IonFreeTask p) = canStartIonFreeTask s"
| "admissionPredicate s (WasmCompileTask mode p) = (canStartWasmCompile s mode = Inr True)"
| "admissionPredicate s (Tier2GeneratorTask p) = canStartWasmTier2GeneratorTask s"
| "admissionPredicate s (PromiseHelperTask p) = canStartPromiseHelperTask s"
| "admissionPredicate s (ParseTask p) = canStartParseTask s"
| "admissionPredicate s (DelazifyTask p) = canStartDelazifyTask s"
| "admissionPredicate s (FreeDelazifyTask p) = canStartFreeDelazifyTask s"
| "admissionPredicate s (SourceCompressionTask p) = canStartCompressionTask s"


text \<open>
  Two threads, one of them running parse task 1, and delazify task 3 queued: one thread
  is idle.
\<close>

definition exampleLastThread :: GlobalHelperThreadState where
  "exampleLastThread =
     runTaskLocked_begin (ParseTask 1) ((exampleBoot 2)\<lparr> delazifyWorklist := [3] \<rparr>)"

text \<open>
  \<open>helper->is<wasm::Tier2GeneratorTask>()\<close> and \<open>helper->is<SourceCompressionTask>()\<close>.
\<close>

fun isTier2GeneratorTask :: "HelperThreadTask \<Rightarrow> bool" where
  "isTier2GeneratorTask (Tier2GeneratorTask p) = True"
| "isTier2GeneratorTask helper = False"

fun isSourceCompressionTask :: "HelperThreadTask \<Rightarrow> bool" where
  "isSourceCompressionTask (SourceCompressionTask p) = True"
| "isSourceCompressionTask helper = False"

text \<open>
  The registry is consistent when the two counters say what the registry holds:
  \<open>totalCountRunningTasks\<close> its length and \<open>runningTaskCount[t]\<close> the number of its
  entries of thread type \<open>t\<close>. The invariant of the reachable states adds that no task is
  entered twice and that the counters of the two single-slot kinds are at most 1.
\<close>

definition registryConsistent :: "GlobalHelperThreadState \<Rightarrow> bool" where
  "registryConsistent s =
     (unat (totalCountRunningTasks s) = length (helperTasks s) \<and>
      (\<forall>t. unat (runningTaskCount s t) =
            length (filter (\<lambda>helper. threadType helper = t) (helperTasks s))))"

definition registryInvariant :: "GlobalHelperThreadState \<Rightarrow> bool" where
  "registryInvariant s =
     (registryConsistent s \<and> distinct (helperTasks s) \<and>
      runningTaskCount s THREAD_TYPE_WASM_GENERATOR_TIER2 \<le> 1 \<and>
      runningTaskCount s THREAD_TYPE_COMPRESS \<le> 1)"

text \<open>
  Four threads: parse tasks 1 and 2 were submitted and a worker has taken parse task 2;
  the same with compression tasks.
\<close>

definition exampleParseRunning :: GlobalHelperThreadState where
  "exampleParseRunning =
     runTaskLocked_begin (ParseTask 2) (exampleParseAB\<lparr> tasksPending := 1, parseWorklist := [1] \<rparr>)"

definition exampleCompressionA :: GlobalHelperThreadState where
  "exampleCompressionA =
     (exampleBoot 4)\<lparr> compressionWorklist := [1], tasksPending := 1, dispatchLog := [NewTask] \<rparr>"

definition exampleCompressionAB :: GlobalHelperThreadState where
  "exampleCompressionAB =
     (exampleBoot 4)\<lparr> compressionWorklist := [1, 2], tasksPending := 2,
        dispatchLog := [NewTask, NewTask] \<rparr>"

definition exampleCompressionRunning :: GlobalHelperThreadState where
  "exampleCompressionRunning =
     runTaskLocked_begin (SourceCompressionTask 2)
       (exampleCompressionAB\<lparr> tasksPending := 1, compressionWorklist := [1] \<rparr>)"

text \<open>
  A host that brings a pool of a single thread to a machine with two CPUs:
  \<open>setDispatchTaskCallback\<close> stores the thread count 1 before the initialisation. On it,
  the states after one and after two submissions of a wasm tier-2 compile task, and the
  state in which the worker has taken the first of them (the worklist is a FIFO); the
  same with compression tasks, of which the worker takes the last.
\<close>

definition exampleOneThread :: GlobalHelperThreadState where
  "exampleOneThread =
     snd (ensureInitialized True
       (setDispatchTaskCallback 1
          (GlobalHelperThreadState_ctor 2 (\<lambda>t. 0) False THREAD_TYPE_NONE
             (\<lambda>p. exampleObj) (\<lambda>r. []) (\<lambda>r. 0))))"

definition exampleOneThreadWasmA :: GlobalHelperThreadState where
  "exampleOneThreadWasmA =
     exampleOneThread\<lparr> wasmWorklist_tier2 := [1], tasksPending := 1, dispatchLog := [NewTask] \<rparr>"

definition exampleOneThreadWasmAB :: GlobalHelperThreadState where
  "exampleOneThreadWasmAB =
     exampleOneThread\<lparr> wasmWorklist_tier2 := [1, 2], tasksPending := 1,
        dispatchLog := [NewTask] \<rparr>"

definition exampleOneThreadWasm :: GlobalHelperThreadState where
  "exampleOneThreadWasm =
     runTaskLocked_begin (WasmCompileTask Tier2 1)
       (exampleOneThreadWasmAB\<lparr> tasksPending := 0, wasmWorklist_tier2 := [2] \<rparr>)"

definition exampleOneThreadCompressionA :: GlobalHelperThreadState where
  "exampleOneThreadCompressionA =
     exampleOneThread\<lparr> compressionWorklist := [1], tasksPending := 1, dispatchLog := [NewTask] \<rparr>"

definition exampleOneThreadCompressionAB :: GlobalHelperThreadState where
  "exampleOneThreadCompressionAB =
     exampleOneThread\<lparr> compressionWorklist := [1, 2], tasksPending := 1,
        dispatchLog := [NewTask] \<rparr>"

definition exampleOneThreadCompression :: GlobalHelperThreadState where
  "exampleOneThreadCompression =
     runTaskLocked_begin (SourceCompressionTask 2)
       (exampleOneThreadCompressionAB\<lparr> tasksPending := 0, compressionWorklist := [1] \<rparr>)"

text \<open>
  Notions used to state the cancellation property. The two vectors fit when their
  lengths together stay below \<open>2^64\<close>, as the lengths of vectors in memory do. A matching
  compilation is running when the registry holds an Ion compile task that the selector
  matches. \<open>waitRounds wait selector n s\<close> is the state in which the waiting loop starts
  its pass number \<open>n + 1\<close>, if it gets there. Two states have the same owners when every
  Ion compile task has the same script, zone, runtime and zone state in both.
\<close>

definition vectorsFit :: "GlobalHelperThreadState \<Rightarrow> bool" where
  "vectorsFit s = (length (ionWorklist s) + length (ionFinishedList s) < 2 ^ 64)"

definition matchingRunning :: "GlobalHelperThreadState \<Rightarrow> CompilationSelector \<Rightarrow> bool" where
  "matchingRunning s selector =
     (\<exists>task. IonCompileTask task \<in> set (helperTasks s) \<and> IonCompileTaskMatches s selector task)"

fun waitRounds ::
  "(GlobalHelperThreadState \<Rightarrow> GlobalHelperThreadState) \<Rightarrow> CompilationSelector \<Rightarrow> nat \<Rightarrow>
   GlobalHelperThreadState \<Rightarrow> GlobalHelperThreadState" where
  "waitRounds wait selector 0 s = s"
| "waitRounds wait selector (Suc n) s =
     waitRounds wait selector n (wait (fst (cancelRunningLoop selector (helperTasks s) (s, False))))"

definition sameOwners :: "GlobalHelperThreadState \<Rightarrow> GlobalHelperThreadState \<Rightarrow> bool" where
  "sameOwners s s' =
     (\<forall>task. script (ionObj s' task) = script (ionObj s task) \<and>
             zoneFromAnyThread (ionObj s' task) = zoneFromAnyThread (ionObj s task) \<and>
             runtimeFromAnyThread (ionObj s' task) = runtimeFromAnyThread (ionObj s task) \<and>
             gcState (ionObj s' task) = gcState (ionObj s task))"

text \<open>
  A coordinator in which runtime 7 owns a queued compilation (1), a running one (2), a
  finished one (3) and one waiting to be linked (4), and runtime 8 owns a queued one (5).
  While the canceller waits, the worker finishes task 2: it appends it to the finished
  list and retires it from the registry (memory permitting). \<open>exampleCancel1\<close> is the state
  after the first loop of the cancellation.
\<close>

definition exampleCancelObj :: "nat \<Rightarrow> IonCompileTaskObj" where
  "exampleCancelObj task = exampleObj\<lparr> runtimeFromAnyThread := (if task = 5 then 8 else 7) \<rparr>"

definition exampleCancel :: GlobalHelperThreadState where
  "exampleCancel =
     (exampleBoot 4)\<lparr> ionWorklist := [1, 5], helperTasks := [IonCompileTask 2],
        totalCountRunningTasks := 1, runningTaskCount := (\<lambda>t. 0)(THREAD_TYPE_ION := 1),
        ionFinishedList := [3], ionLazyLinkList := (\<lambda>r. [])(7 := [4]),
        ionObj := exampleCancelObj, numFinishedOffThreadTasks := (\<lambda>r. 0)(7 := 1) \<rparr>"

definition exampleWait :: "GlobalHelperThreadState \<Rightarrow> GlobalHelperThreadState" where
  "exampleWait s =
     (let s' = FinishOffThreadIonCompile 2 (runTaskLocked_end (IonCompileTask 2) s)
      in if vectorsFit s' then s' else s)"

definition exampleCancel1 :: GlobalHelperThreadState where
  "exampleCancel1 =
     exampleCancel\<lparr> ionWorklist := [5], ionFinishedList := [3, 1],
       numFinishedOffThreadTasks := (\<lambda>r. 0)(7 := 2),
       ionObj := exampleCancelObj(1 := (exampleCancelObj 1)\<lparr> lifoAllocReadOnly := False \<rparr>) \<rparr>"

section \<open>Properties\<close>

lemmas example_defs = exampleBoot_def exampleObj_def ensureInitialized_def
  GlobalHelperThreadState_ctor_def ClampDefaultCPUCount_def ThreadCountForCPUCount_def
  runTaskLocked_begin_def Let_def

subsection \<open>Thread-count clamp\<close>

text \<open>
  Claim C8. The constructor turns the probed CPU count \<open>c\<close> into the thread count
  \<open>max (min c 8) 2\<close>: a count above the ceiling 8 gives 8 threads, a count below 2 gives
  2 threads. The CPU count it keeps is \<open>min c 8\<close>.
\<close>

theorem thread_count_clamp:
  "threadCount (GlobalHelperThreadState_ctor probed uninit simBuild target mem lazy fin)
     = max (min probed 8) 2
   \<and> cpuCount (GlobalHelperThreadState_ctor probed uninit simBuild target mem lazy fin)
     = min probed 8"
  by (simp add: GlobalHelperThreadState_ctor_def ClampDefaultCPUCount_def
      ThreadCountForCPUCount_def Let_def)

text \<open>
  The ceiling belongs to the probe. \<open>setCpuCount\<close>, behind \<open>js::SetFakeCPUCount\<close>,
  stores the count it is given and only applies the minimum.
\<close>

lemma setCpuCount_not_clamped:
  "threadCount (setCpuCount count' s) = max count' 2 \<and> cpuCount (setCpuCount count' s) = count'"
  by (simp add: setCpuCount_def ThreadCountForCPUCount_def)

subsection \<open>Master tasks never take the last idle thread\<close>

lemma checkTaskThreadLimit_master_idle:
  "threadCount s - totalCountRunningTasks s \<le> 1 \<Longrightarrow>
   \<not> checkTaskThreadLimit s threadType' maxThreads True"
  by (auto simp: checkTaskThreadLimit_def Let_def word_le_less_eq)

text \<open>
  Claim C1. When at most one worker thread is idle, that is when
  \<open>threadCount - totalCountRunningTasks\<close> (the variable \<open>idle\<close> of
  \<open>checkTaskThreadLimit\<close>) is at most 1, the admission predicate of every master kind
  (wasm tier-2 generator, promise helper, parse, delazify, free-delazify) is false.
\<close>

theorem master_task_deadlock_avoidance:
  assumes "threadCount s - totalCountRunningTasks s \<le> 1"
  shows "\<not> canStartWasmTier2GeneratorTask s \<and> \<not> canStartPromiseHelperTask s \<and>
         \<not> canStartParseTask s \<and> \<not> canStartDelazifyTask s \<and> \<not> canStartFreeDelazifyTask s"
  using checkTaskThreadLimit_master_idle [OF assms]
  by (simp add: canStartWasmTier2GeneratorTask_def canStartPromiseHelperTask_def
      canStartParseTask_def canStartDelazifyTask_def canStartFreeDelazifyTask_def)

text \<open>
  The scenario of the claim: two threads, one parse task in the registry, another parse
  task queued. No master kind may start.
\<close>

theorem master_task_deadlock_avoidance_witness:
  "threadCount exampleMasterRunning = 2 \<and>
   helperTasks exampleMasterRunning = [ParseTask 1] \<and>
   totalCountRunningTasks exampleMasterRunning = 1 \<and>
   parseWorklist exampleMasterRunning = [2] \<and>
   \<not> canStartWasmTier2GeneratorTask exampleMasterRunning \<and>
   \<not> canStartPromiseHelperTask exampleMasterRunning \<and>
   \<not> canStartParseTask exampleMasterRunning \<and>
   \<not> canStartDelazifyTask exampleMasterRunning \<and>
   \<not> canStartFreeDelazifyTask exampleMasterRunning"
proof -
  have idle: "threadCount exampleMasterRunning - totalCountRunningTasks exampleMasterRunning \<le> 1"
    by (simp add: exampleMasterRunning_def example_defs)
  show ?thesis
    using master_task_deadlock_avoidance [OF idle]
    by (simp add: exampleMasterRunning_def example_defs)
qed

subsection \<open>Unfolding rules\<close>

lemmas canStart_defs = canStartGCParallelTask_def canStartIonCompileTask_def
  canStartWasmTier1CompileTask_def canStartWasmTier2CompileTask_def canStartWasmCompile_def
  canStartPromiseHelperTask_def canStartParseTask_def canStartFreeDelazifyTask_def
  canStartDelazifyTask_def canStartCompressionTask_def canStartIonFreeTask_def
  canStartWasmTier2GeneratorTask_def wasmWorklist_def

lemmas max_defs = maxIonCompilationThreads_def maxWasmCompilationThreads_def
  maxWasmTier2GeneratorThreads_def MaxTier2GeneratorTasks_def maxPromiseHelperThreads_def
  maxParseThreads_def maxCompressionThreads_def maxGCParallelThreads_def
  IsHelperThreadSimulatingOOM_def

lemmas submit_defs = submitTask_WasmCompile_def submitTask_Tier2Generator_def
  submitTask_IonCompile_def submitTask_IonFree_def submitTask_Parse_def
  submitTask_Delazify_def submitTask_FreeDelazify_def submitTask_Compression_def
  submitTask_GCParallel_def submitTask_PromiseHelper_def dispatchNewTask_def

lemmas selector_defs = maybeGetWasmCompile_def maybeGetWasmTier1CompileTask_def
  maybeGetWasmTier2CompileTask_def maybeGetWasmTier2GeneratorTask_def
  maybeGetPromiseHelperTask_def maybeGetIonCompileTask_def maybeGetLowPrioIonCompileTask_def
  maybeGetIonFreeTask_def maybeGetParseTask_def maybeGetFreeDelazifyTask_def
  maybeGetDelazifyTask_def maybeGetCompressionTask_def maybeGetGCParallelTask_def
  highestPriorityPendingIonCompile_def

subsection \<open>Submission is all or nothing\<close>

lemma dispatchNewTask_True:
  "dispatchNewTask s = Inr (r, s') \<Longrightarrow> r"
  by (auto simp: dispatchNewTask_def split: sum.splits)

text \<open>
  Claim C9. Whatever the work kind, a submission that returns \<open>false\<close> was refused
  memory by the worklist, and every member of the coordinator (every worklist, every
  counter, the registry) is as before the call: nothing was enqueued, the coordinator
  holds no reference to the task. The same holds for \<open>js::StartOffThreadIonFree\<close>, which
  allocates the free task it submits. What becomes of the task depends on the overload.
  A wasm compile task, an Ion compile task and a promise helper task, passed as raw
  pointers, are left to the caller: the state is the one before the call. A tier-2
  generator task, an Ion free task, a parse task, a free-delazify task and a compression
  task, passed as owning pointers, are destroyed by the failed call.
\<close>

theorem submission_atomicity:
  "(submitTask submission allocOk s = Inr (False, s') \<longrightarrow>
      \<not> allocOk \<and> s'\<lparr> deletedTasks := deletedTasks s \<rparr> = s) \<and>
   (StartOffThreadIonFree task makeOk allocOk s = Inr (False, s') \<longrightarrow>
      (\<not> makeOk \<or> \<not> allocOk) \<and> s'\<lparr> deletedTasks := deletedTasks s \<rparr> = s) \<and>
   submitTask (SubmitWasmCompile task mode) False s = Inr (False, s) \<and>
   submitTask (SubmitIonCompile task) False s = Inr (False, s) \<and>
   submitTask (SubmitPromiseHelper task) False s = Inr (False, s) \<and>
   submitTask (SubmitTier2Generator task) False s =
     Inr (False, s\<lparr> deletedTasks := deletedTasks s @ [Tier2GeneratorTask task] \<rparr>) \<and>
   submitTask (SubmitIonFree task) False s =
     Inr (False, s\<lparr> deletedTasks := deletedTasks s @ [IonFreeTask task] \<rparr>) \<and>
   submitTask (SubmitParse task) False s =
     Inr (False, s\<lparr> deletedTasks := deletedTasks s @ [ParseTask task] \<rparr>) \<and>
   submitTask (SubmitFreeDelazify task) False s =
     Inr (False, s\<lparr> deletedTasks := deletedTasks s @ [FreeDelazifyTask task] \<rparr>) \<and>
   submitTask (SubmitCompression task) False s =
     Inr (False, s\<lparr> deletedTasks := deletedTasks s @ [SourceCompressionTask task] \<rparr>)"
proof -
  have "\<not> allocOk \<and> s'\<lparr> deletedTasks := deletedTasks s \<rparr> = s"
    if "submitTask submission allocOk s = Inr (False, s')"
    using that
    by (cases submission)
       (auto simp: submit_defs split: if_splits sum.splits dest: dispatchNewTask_True)
  moreover have "(\<not> makeOk \<or> \<not> allocOk) \<and> s'\<lparr> deletedTasks := deletedTasks s \<rparr> = s"
    if "StartOffThreadIonFree task makeOk allocOk s = Inr (False, s')"
    using that
    by (auto simp: StartOffThreadIonFree_def submit_defs
        split: if_splits sum.splits dest: dispatchNewTask_True)
  ultimately show ?thesis
    by (auto simp: submit_defs)
qed

text \<open>
  A wasm compile task refused for lack of memory leaves the state as it was, with an
  empty worklist; a compression task refused for lack of memory is destroyed, and the
  state is otherwise as it was.
\<close>

theorem submission_atomicity_witness:
  "submitTask (SubmitWasmCompile 7 Tier1) False (exampleBoot 2) = Inr (False, exampleBoot 2) \<and>
   wasmWorklist_tier1 (exampleBoot 2) = [] \<and>
   submitTask (SubmitCompression 7) False (exampleBoot 2) =
     Inr (False, (exampleBoot 2)\<lparr> deletedTasks := [SourceCompressionTask 7] \<rparr>) \<and>
   (exampleBoot 2)\<lparr> deletedTasks := [SourceCompressionTask 7],
                    deletedTasks := deletedTasks (exampleBoot 2) \<rparr> = exampleBoot 2"
proof -
  have sub: "submitTask (SubmitCompression 7) False (exampleBoot 2) =
     Inr (False, (exampleBoot 2)\<lparr> deletedTasks := [SourceCompressionTask 7] \<rparr>)"
    by (simp add: submitTask_Compression_def example_defs)
  have "wasmWorklist_tier1 (exampleBoot 2) = []"
    by (simp add: example_defs)
  with sub
    submission_atomicity [where submission = "SubmitCompression 7" and allocOk = False
      and s = "exampleBoot 2"
      and s' = "(exampleBoot 2)\<lparr> deletedTasks := [SourceCompressionTask 7] \<rparr>"
      and task = 7 and mode = Tier1]
  show ?thesis
    by simp
qed

text \<open>
  Claim C9, the case it misses. The parse task that a fresh coordinator refuses for lack
  of memory does not remain with the caller: the call returns \<open>false\<close>, the parse worklist
  is still empty, and the task has been destroyed.
\<close>

theorem failed_submission_destroys_task_counterexample:
  "deletedTasks (exampleBoot 2) = [] \<and>
   (\<exists>s'. submitTask (SubmitParse 7) False (exampleBoot 2) = Inr (False, s') \<and>
         parseWorklist s' = [] \<and>
         deletedTasks s' = [ParseTask 7])"
  by (simp add: submitTask_Parse_def example_defs)

subsection \<open>Order of the worklists\<close>

lemmas eval_defs = example_defs submit_defs dispatch_def canStartTasks_def
  canStart_defs max_defs checkTaskThreadLimit_def

lemma dispatch_frame:
  assumes "dispatch reason s = Inr s'"
  shows "s' = s \<or> s' = s\<lparr> tasksPending := tasksPending s + 1, dispatchLog := dispatchLog s @ [reason] \<rparr>"
  using assms by (auto simp: dispatch_def split: sum.splits if_splits)

lemma dispatchNewTask_frame:
  assumes "dispatchNewTask s = Inr (r, s')"
  shows "s' = s \<or> s' = s\<lparr> tasksPending := tasksPending s + 1, dispatchLog := dispatchLog s @ [NewTask] \<rparr>"
  using assms dispatch_frame [of NewTask s s']
  by (auto simp: dispatchNewTask_def split: sum.splits)

lemma submit_Parse_worklist:
  "submitTask (SubmitParse a) True s = Inr (r, s1) \<Longrightarrow> parseWorklist s1 = parseWorklist s @ [a]"
  by (auto simp: submitTask_Parse_def dest!: dispatchNewTask_frame)

lemma submit_Compression_worklist:
  "submitTask (SubmitCompression a) True s = Inr (r, s1) \<Longrightarrow>
   compressionWorklist s1 = compressionWorklist s @ [a]"
  by (auto simp: submitTask_Compression_def dest!: dispatchNewTask_frame)

lemma submit_FreeDelazify_worklist:
  "submitTask (SubmitFreeDelazify a) True s = Inr (r, s1) \<Longrightarrow>
   freeDelazifyTaskVector s1 = freeDelazifyTaskVector s @ [a]"
  by (auto simp: submitTask_FreeDelazify_def dest!: dispatchNewTask_frame)

lemma submit_IonFree_worklist:
  "submitTask (SubmitIonFree a) True s = Inr (r, s1) \<Longrightarrow> ionFreeList s1 = ionFreeList s @ [a]"
  by (auto simp: submitTask_IonFree_def dest!: dispatchNewTask_frame)

lemma submit_Delazify_worklist:
  "submitTask (SubmitDelazify a) allocOk s = Inr (r, s1) \<Longrightarrow>
   delazifyWorklist s1 = delazifyWorklist s @ [a]"
  by (auto simp: submitTask_Delazify_def split: sum.splits dest!: dispatch_frame)

lemma submit_GCParallel_worklist:
  "submitTask (SubmitGCParallel a) allocOk s = Inr (r, s1) \<Longrightarrow>
   gcParallelWorklist s1 = gcParallelWorklist s @ [a]"
  by (auto simp: submitTask_GCParallel_def dest!: dispatchNewTask_frame)

text \<open>
  Claim C5. Tasks \<open>a\<close> then \<open>b\<close> are submitted to the same worklist; then the selector
  of the kind pops once. For the kinds that pop from the back (parse, compression,
  free-delazify, Ion free) the task returned is \<open>b\<close>, whatever was queued before. For the
  kinds that pop from the front (delazify, GC-parallel) it is \<open>a\<close>, the worklist having been
  empty before. This holds in every state; the parse, compression and GC-parallel
  selectors pop only if their admission predicate holds.
\<close>

theorem fifo_lifo_fidelity:
  "(submitTask (SubmitParse a) True s = Inr (ra, sa) \<and>
    submitTask (SubmitParse b) True sa = Inr (rb, sb) \<and> canStartParseTask sb \<longrightarrow>
      (\<exists>sc. maybeGetParseTask sb = Inr (Some (ParseTask b), sc))) \<and>
   (submitTask (SubmitCompression a) True s = Inr (ra, sa) \<and>
    submitTask (SubmitCompression b) True sa = Inr (rb, sb) \<and> canStartCompressionTask sb \<longrightarrow>
      (\<exists>sc. maybeGetCompressionTask sb = Inr (Some (SourceCompressionTask b), sc))) \<and>
   (submitTask (SubmitFreeDelazify a) True s = Inr (ra, sa) \<and>
    submitTask (SubmitFreeDelazify b) True sa = Inr (rb, sb) \<longrightarrow>
      (\<exists>sc. maybeGetFreeDelazifyTask sb = Inr (Some (FreeDelazifyTask b), sc))) \<and>
   (submitTask (SubmitIonFree a) True s = Inr (ra, sa) \<and>
    submitTask (SubmitIonFree b) True sa = Inr (rb, sb) \<longrightarrow>
      (\<exists>sc. maybeGetIonFreeTask sb = Inr (Some (IonFreeTask b), sc))) \<and>
   (delazifyWorklist s = [] \<and>
    submitTask (SubmitDelazify a) allocOk s = Inr (ra, sa) \<and>
    submitTask (SubmitDelazify b) allocOk sa = Inr (rb, sb) \<longrightarrow>
      (\<exists>sc. maybeGetDelazifyTask sb = Inr (Some (DelazifyTask a), sc))) \<and>
   (gcParallelWorklist s = [] \<and>
    submitTask (SubmitGCParallel a) allocOk s = Inr (ra, sa) \<and>
    submitTask (SubmitGCParallel b) allocOk sa = Inr (rb, sb) \<and> canStartGCParallelTask sb \<longrightarrow>
      (\<exists>sc. maybeGetGCParallelTask sb = Inr (Some (GCParallelTask a), sc)))"
proof (intro conjI impI; elim conjE)
  assume h: "submitTask (SubmitParse a) True s = Inr (ra, sa)"
    "submitTask (SubmitParse b) True sa = Inr (rb, sb)" and can: "canStartParseTask sb"
  from submit_Parse_worklist [OF h(1)] submit_Parse_worklist [OF h(2)] can
  show "\<exists>sc. maybeGetParseTask sb = Inr (Some (ParseTask b), sc)"
    by (simp add: maybeGetParseTask_def)
next
  assume h: "submitTask (SubmitCompression a) True s = Inr (ra, sa)"
    "submitTask (SubmitCompression b) True sa = Inr (rb, sb)"
    and can: "canStartCompressionTask sb"
  from submit_Compression_worklist [OF h(1)] submit_Compression_worklist [OF h(2)] can
  show "\<exists>sc. maybeGetCompressionTask sb = Inr (Some (SourceCompressionTask b), sc)"
    by (simp add: maybeGetCompressionTask_def)
next
  assume h: "submitTask (SubmitFreeDelazify a) True s = Inr (ra, sa)"
    "submitTask (SubmitFreeDelazify b) True sa = Inr (rb, sb)"
  from submit_FreeDelazify_worklist [OF h(1)] submit_FreeDelazify_worklist [OF h(2)]
  show "\<exists>sc. maybeGetFreeDelazifyTask sb = Inr (Some (FreeDelazifyTask b), sc)"
    by (simp add: maybeGetFreeDelazifyTask_def)
next
  assume h: "submitTask (SubmitIonFree a) True s = Inr (ra, sa)"
    "submitTask (SubmitIonFree b) True sa = Inr (rb, sb)"
  from submit_IonFree_worklist [OF h(1)] submit_IonFree_worklist [OF h(2)]
  show "\<exists>sc. maybeGetIonFreeTask sb = Inr (Some (IonFreeTask b), sc)"
    by (simp add: maybeGetIonFreeTask_def canStartIonFreeTask_def)
next
  assume empty: "delazifyWorklist s = []"
    and h: "submitTask (SubmitDelazify a) allocOk s = Inr (ra, sa)"
    "submitTask (SubmitDelazify b) allocOk sa = Inr (rb, sb)"
  from submit_Delazify_worklist [OF h(1)] submit_Delazify_worklist [OF h(2)] empty
  show "\<exists>sc. maybeGetDelazifyTask sb = Inr (Some (DelazifyTask a), sc)"
    by (simp add: maybeGetDelazifyTask_def)
next
  assume empty: "gcParallelWorklist s = []"
    and h: "submitTask (SubmitGCParallel a) allocOk s = Inr (ra, sa)"
    "submitTask (SubmitGCParallel b) allocOk sa = Inr (rb, sb)"
    and can: "canStartGCParallelTask sb"
  from submit_GCParallel_worklist [OF h(1)] submit_GCParallel_worklist [OF h(2)] empty can
  show "\<exists>sc. maybeGetGCParallelTask sb = Inr (Some (GCParallelTask a), sc)"
    by (simp add: maybeGetGCParallelTask_def)
qed

text \<open>
  On the fresh coordinator with four threads: parse tasks 1 then 2 are submitted and the
  pop returns 2; delazify tasks 1 then 2 are submitted and the pop returns 1.
\<close>

theorem fifo_lifo_fidelity_witness:
  "submitTask (SubmitParse 1) True (exampleBoot 4) = Inr (True, exampleParseA) \<and>
   submitTask (SubmitParse 2) True exampleParseA = Inr (True, exampleParseAB) \<and>
   canStartParseTask exampleParseAB \<and>
   (\<exists>s3. maybeGetParseTask exampleParseAB = Inr (Some (ParseTask 2), s3)) \<and>
   delazifyWorklist (exampleBoot 4) = [] \<and>
   submitTask (SubmitDelazify 1) True (exampleBoot 4) = Inr (True, exampleDelazifyA) \<and>
   submitTask (SubmitDelazify 2) True exampleDelazifyA = Inr (True, exampleDelazifyAB) \<and>
   (\<exists>s3. maybeGetDelazifyTask exampleDelazifyAB = Inr (Some (DelazifyTask 1), s3))"
proof -
  have p1: "submitTask (SubmitParse 1) True (exampleBoot 4) = Inr (True, exampleParseA)"
    by (simp add: exampleParseA_def eval_defs)
  have p2: "submitTask (SubmitParse 2) True exampleParseA = Inr (True, exampleParseAB)"
    by (simp add: exampleParseA_def exampleParseAB_def eval_defs)
  have p3: "canStartParseTask exampleParseAB"
    by (simp add: exampleParseAB_def eval_defs)
  have d0: "delazifyWorklist (exampleBoot 4) = []"
    by (simp add: example_defs)
  have d1: "submitTask (SubmitDelazify 1) True (exampleBoot 4) = Inr (True, exampleDelazifyA)"
    by (simp add: exampleDelazifyA_def eval_defs)
  have d2: "submitTask (SubmitDelazify 2) True exampleDelazifyA = Inr (True, exampleDelazifyAB)"
    by (simp add: exampleDelazifyA_def exampleDelazifyAB_def eval_defs)
  have lifo: "\<exists>s3. maybeGetParseTask exampleParseAB = Inr (Some (ParseTask 2), s3)"
    using fifo_lifo_fidelity [where s = "exampleBoot 4" and a = 1 and ra = True
        and sa = exampleParseA and b = 2 and rb = True and sb = exampleParseAB] p1 p2 p3
    by blast
  have fifo: "\<exists>s3. maybeGetDelazifyTask exampleDelazifyAB = Inr (Some (DelazifyTask 1), s3)"
    using fifo_lifo_fidelity [where s = "exampleBoot 4" and a = 1 and ra = True
        and sa = exampleDelazifyA and b = 2 and rb = True and sb = exampleDelazifyAB
        and allocOk = True] d0 d1 d2
    by blast
  from p1 p2 p3 lifo d0 d1 d2 fifo show ?thesis
    by blast
qed

subsection \<open>Selection follows the table of selectors\<close>

lemma quiet_simple:
  "quietOnNothing maybeGetGCParallelTask"
  "quietOnNothing maybeGetPromiseHelperTask"
  "quietOnNothing maybeGetParseTask"
  "quietOnNothing maybeGetFreeDelazifyTask"
  "quietOnNothing maybeGetDelazifyTask"
  "quietOnNothing maybeGetCompressionTask"
  "quietOnNothing maybeGetIonFreeTask"
  "quietOnNothing maybeGetWasmTier2GeneratorTask"
  by (auto simp: quietOnNothing_def maybeGetGCParallelTask_def maybeGetPromiseHelperTask_def
      maybeGetParseTask_def maybeGetFreeDelazifyTask_def maybeGetDelazifyTask_def
      maybeGetCompressionTask_def maybeGetIonFreeTask_def maybeGetWasmTier2GeneratorTask_def
      split: if_splits)

lemma quiet_wasm:
  "quietOnNothing (maybeGetWasmCompile mode)"
  by (auto simp: quietOnNothing_def maybeGetWasmCompile_def split: if_splits sum.splits)

lemma quiet_ion:
  "quietOnNothing (highestPriorityPendingIonCompile check)"
  by (auto simp: quietOnNothing_def highestPriorityPendingIonCompile_def split: if_splits sum.splits)

lemma quiet_selectors: "\<forall>selector \<in> set selectors. quietOnNothing selector"
  using quiet_simple quiet_wasm quiet_ion
  by (auto simp: selectors_def maybeGetWasmTier1CompileTask_def maybeGetWasmTier2CompileTask_def
      maybeGetIonCompileTask_def maybeGetLowPrioIonCompileTask_def quietOnNothing_def)


lemma findFirstTask_Some:
  assumes "\<forall>selector \<in> set table. quietOnNothing selector"
    and "findFirstTask table s = Inr (Some task, s')"
  shows "\<exists>selector \<in> set table. selector s = Inr (Some task, s')"
  using assms
proof (induction table)
  case Nil
  then show ?case by simp
next
  case (Cons selector rest)
  show ?case
  proof (cases "selector s")
    case (Inl c)
    with Cons.prems show ?thesis by simp
  next
    case (Inr r)
    obtain found s1 where r: "r = (found, s1)" by (cases r)
    show ?thesis
    proof (cases found)
      case None
      with Inr r Cons.prems(1) have "s1 = s" by (simp add: quietOnNothing_def)
      with None Inr r Cons.prems have "findFirstTask rest s = Inr (Some task, s')" by simp
      with Cons.IH Cons.prems(1) show ?thesis by auto
    next
      case (Some t)
      with Inr r Cons.prems show ?thesis by simp
    qed
  qed
qed



subsection \<open>Selection and the admission predicates\<close>

lemma admission_simple:
  "maybeGetGCParallelTask s = Inr (Some task, s') \<Longrightarrow> admissionPredicate s task"
  "maybeGetPromiseHelperTask s = Inr (Some task, s') \<Longrightarrow> admissionPredicate s task"
  "maybeGetParseTask s = Inr (Some task, s') \<Longrightarrow> admissionPredicate s task"
  "maybeGetCompressionTask s = Inr (Some task, s') \<Longrightarrow> admissionPredicate s task"
  "maybeGetIonFreeTask s = Inr (Some task, s') \<Longrightarrow> admissionPredicate s task"
  "maybeGetWasmTier2GeneratorTask s = Inr (Some task, s') \<Longrightarrow> admissionPredicate s task"
  by (auto simp: maybeGetGCParallelTask_def maybeGetPromiseHelperTask_def
      maybeGetParseTask_def maybeGetCompressionTask_def maybeGetIonFreeTask_def
      maybeGetWasmTier2GeneratorTask_def split: if_splits)

lemma admission_wasm:
  "maybeGetWasmCompile mode s = Inr (Some task, s') \<Longrightarrow> admissionPredicate s task"
  by (auto simp: maybeGetWasmCompile_def split: if_splits sum.splits)

lemma admission_ion:
  "maybeGetIonCompileTask s = Inr (Some task, s') \<Longrightarrow> admissionPredicate s task"
  "maybeGetLowPrioIonCompileTask s = Inr (Some task, s') \<Longrightarrow> admissionPredicate s task"
  by (auto simp: maybeGetIonCompileTask_def maybeGetLowPrioIonCompileTask_def
      highestPriorityPendingIonCompile_def split: if_splits sum.splits)

lemma delazify_kinds:
  "maybeGetDelazifyTask s = Inr (Some task, s') \<Longrightarrow> \<exists>p. task = DelazifyTask p"
  "maybeGetFreeDelazifyTask s = Inr (Some task, s') \<Longrightarrow> \<exists>p. task = FreeDelazifyTask p"
  by (auto simp: maybeGetDelazifyTask_def maybeGetFreeDelazifyTask_def split: if_splits)

lemma selector_admission:
  assumes "selector \<in> set selectors" and "selector s = Inr (Some task, s')"
    and "\<forall>p. task \<noteq> DelazifyTask p" and "\<forall>p. task \<noteq> FreeDelazifyTask p"
  shows "admissionPredicate s task"
  using assms admission_simple [of s task s'] admission_ion [of s task s']
    admission_wasm [of Tier1 s task s'] admission_wasm [of Tier2 s task s']
    delazify_kinds [of s task s']
  by (auto simp: selectors_def maybeGetWasmTier1CompileTask_def maybeGetWasmTier2CompileTask_def)

text \<open>
  Claim C3 says that a selector returns a task only when the admission predicate of
  its kind holds, in particular for delazify and free-delazify. It fails for delazify:
  with two threads, one of them busy, \<open>canStartDelazifyTask\<close> is false (a master task would
  take the last idle thread), and yet \<open>maybeGetDelazifyTask\<close>, and with it
  \<open>findHighestPriorityTask\<close>, returns the queued delazify task.
\<close>

theorem selection_ignores_admission_counterexample:
  "findHighestPriorityTask exampleLastThread =
     Inr (Some (DelazifyTask 3), exampleLastThread\<lparr> delazifyWorklist := [] \<rparr>) \<and>
   maybeGetDelazifyTask exampleLastThread =
     Inr (Some (DelazifyTask 3), exampleLastThread\<lparr> delazifyWorklist := [] \<rparr>) \<and>
   \<not> canStartDelazifyTask exampleLastThread \<and>
   \<not> admissionPredicate exampleLastThread (DelazifyTask 3)"
  by (simp add: exampleLastThread_def findHighestPriorityTask_def selectors_def selector_defs
      eval_defs)

text \<open>
  Claim C3, amended. For every kind other than delazify and free-delazify, selection
  (\<open>findHighestPriorityTask\<close>, and each selector of the table) returns a task of the kind
  only if the admission predicate of the kind holds in the state of the call. The
  delazify selector is not gated by \<open>canStartDelazifyTask\<close>: it returns the front task
  whenever the delazify worklist is not empty.
\<close>

theorem selection_honours_admission:
  "(findHighestPriorityTask s = Inr (Some task, s') \<and>
    (\<forall>p. task \<noteq> DelazifyTask p) \<and> (\<forall>p. task \<noteq> FreeDelazifyTask p) \<longrightarrow>
      admissionPredicate s task) \<and>
   (selector \<in> set selectors \<and> selector s = Inr (Some task, s') \<and>
    (\<forall>p. task \<noteq> DelazifyTask p) \<and> (\<forall>p. task \<noteq> FreeDelazifyTask p) \<longrightarrow>
      admissionPredicate s task) \<and>
   (delazifyWorklist s \<noteq> [] \<longrightarrow>
      maybeGetDelazifyTask s =
        Inr (Some (DelazifyTask (hd (delazifyWorklist s))),
             s\<lparr> delazifyWorklist := tl (delazifyWorklist s) \<rparr>))"
proof (intro conjI impI)
  assume a: "findHighestPriorityTask s = Inr (Some task, s') \<and>
    (\<forall>p. task \<noteq> DelazifyTask p) \<and> (\<forall>p. task \<noteq> FreeDelazifyTask p)"
  then obtain selector where "selector \<in> set selectors" "selector s = Inr (Some task, s')"
    using findFirstTask_Some [OF quiet_selectors, of s task s']
    by (auto simp: findHighestPriorityTask_def)
  with a show "admissionPredicate s task"
    using selector_admission by blast
next
  assume "selector \<in> set selectors \<and> selector s = Inr (Some task, s') \<and>
    (\<forall>p. task \<noteq> DelazifyTask p) \<and> (\<forall>p. task \<noteq> FreeDelazifyTask p)"
  then show "admissionPredicate s task"
    using selector_admission by blast
next
  assume "delazifyWorklist s \<noteq> []"
  then show "maybeGetDelazifyTask s =
        Inr (Some (DelazifyTask (hd (delazifyWorklist s))),
             s\<lparr> delazifyWorklist := tl (delazifyWorklist s) \<rparr>)"
    by (simp add: maybeGetDelazifyTask_def)
qed

text \<open>
  With four idle threads and parse tasks 1 and 2 queued, selection returns parse task 2
  and \<open>canStartParseTask\<close> holds; on \<open>exampleLastThread\<close> the delazify selector returns
  task 3.
\<close>

theorem selection_honours_admission_witness:
  "findHighestPriorityTask exampleParseAB =
     Inr (Some (ParseTask 2), exampleParseAB\<lparr> parseWorklist := [1] \<rparr>) \<and>
   canStartParseTask exampleParseAB \<and>
   delazifyWorklist exampleLastThread \<noteq> [] \<and>
   maybeGetDelazifyTask exampleLastThread =
     Inr (Some (DelazifyTask 3), exampleLastThread\<lparr> delazifyWorklist := [] \<rparr>)"
proof -
  have found: "findHighestPriorityTask exampleParseAB =
      Inr (Some (ParseTask 2), exampleParseAB\<lparr> parseWorklist := [1] \<rparr>)"
    by (simp add: exampleParseAB_def findHighestPriorityTask_def selectors_def selector_defs
        eval_defs)
  then have "admissionPredicate exampleParseAB (ParseTask 2)"
    using selection_honours_admission [of exampleParseAB "ParseTask 2"
        "exampleParseAB\<lparr> parseWorklist := [1] \<rparr>"]
    by simp
  then have admitted: "canStartParseTask exampleParseAB"
    by simp
  have queued: "delazifyWorklist exampleLastThread \<noteq> []"
    and front: "hd (delazifyWorklist exampleLastThread) = 3"
      "tl (delazifyWorklist exampleLastThread) = []"
    by (simp_all add: exampleLastThread_def example_defs)
  have "maybeGetDelazifyTask exampleLastThread =
      Inr (Some (DelazifyTask 3), exampleLastThread\<lparr> delazifyWorklist := [] \<rparr>)"
    using selection_honours_admission [of exampleLastThread] queued front
    by simp
  with found admitted queued show ?thesis
    by simp
qed

subsection \<open>The registry and its counters\<close>

lemma configured_fresh:
  "configured s \<Longrightarrow> \<not> isInitialized s \<and> helperTasks s = [] \<and> totalCountRunningTasks s = 0"
  by (induction rule: configured.induct)
     (simp_all add: GlobalHelperThreadState_ctor_def Let_def setCpuCount_def
        setDispatchTaskCallback_def)

lemma untouched_refl: "registryUntouched s s"
  by (simp add: registryUntouched_def)

lemma untouched_trans:
  "registryUntouched s s1 \<Longrightarrow> registryUntouched s1 s2 \<Longrightarrow> registryUntouched s s2"
  by (simp add: registryUntouched_def)

lemma invariant_untouched:
  "registryInvariant s \<Longrightarrow> registryUntouched s s' \<Longrightarrow> registryInvariant s'"
  by (simp add: registryInvariant_def registryConsistent_def registryUntouched_def)

lemma dispatch_untouched:
  "dispatch reason s = Inr s' \<Longrightarrow> registryUntouched s s'"
  by (drule dispatch_frame) (auto simp: registryUntouched_def)

lemma dispatchNewTask_untouched:
  "dispatchNewTask s = Inr (r, s') \<Longrightarrow> registryUntouched s s'"
  by (drule dispatchNewTask_frame) (auto simp: registryUntouched_def)

lemma submit_untouched:
  assumes "submitTask submission allocOk s = Inr (r, s')"
  shows "registryUntouched s s'"
  using assms
  by (cases submission)
     (auto simp: submitTask_WasmCompile_def submitTask_Tier2Generator_def
        submitTask_IonCompile_def submitTask_IonFree_def submitTask_Parse_def
        submitTask_Delazify_def submitTask_FreeDelazify_def submitTask_Compression_def
        submitTask_GCParallel_def submitTask_PromiseHelper_def registryUntouched_def
        split: if_splits sum.splits
        dest!: dispatchNewTask_untouched dispatch_untouched)

lemma untouched_simple:
  "maybeGetGCParallelTask s = Inr (r, s') \<Longrightarrow> registryUntouched s s'"
  "maybeGetPromiseHelperTask s = Inr (r, s') \<Longrightarrow> registryUntouched s s'"
  "maybeGetParseTask s = Inr (r, s') \<Longrightarrow> registryUntouched s s'"
  "maybeGetFreeDelazifyTask s = Inr (r, s') \<Longrightarrow> registryUntouched s s'"
  "maybeGetDelazifyTask s = Inr (r, s') \<Longrightarrow> registryUntouched s s'"
  "maybeGetCompressionTask s = Inr (r, s') \<Longrightarrow> registryUntouched s s'"
  "maybeGetIonFreeTask s = Inr (r, s') \<Longrightarrow> registryUntouched s s'"
  "maybeGetWasmTier2GeneratorTask s = Inr (r, s') \<Longrightarrow> registryUntouched s s'"
  by (auto simp: registryUntouched_def maybeGetGCParallelTask_def maybeGetPromiseHelperTask_def
      maybeGetParseTask_def maybeGetFreeDelazifyTask_def maybeGetDelazifyTask_def
      maybeGetCompressionTask_def maybeGetIonFreeTask_def maybeGetWasmTier2GeneratorTask_def
      split: if_splits)

lemma untouched_wasm:
  "maybeGetWasmCompile mode s = Inr (r, s') \<Longrightarrow> registryUntouched s s'"
  by (auto simp: registryUntouched_def maybeGetWasmCompile_def split: if_splits sum.splits)

lemma untouched_ion:
  "maybeGetIonCompileTask s = Inr (r, s') \<Longrightarrow> registryUntouched s s'"
  "maybeGetLowPrioIonCompileTask s = Inr (r, s') \<Longrightarrow> registryUntouched s s'"
  by (auto simp: registryUntouched_def maybeGetIonCompileTask_def
      maybeGetLowPrioIonCompileTask_def highestPriorityPendingIonCompile_def
      split: if_splits sum.splits)

lemma selectors_untouched:
  assumes "selector \<in> set selectors" and "selector s = Inr (r, s')"
  shows "registryUntouched s s'"
  using assms untouched_simple [of s r s'] untouched_ion [of s r s']
    untouched_wasm [of Tier1 s r s'] untouched_wasm [of Tier2 s r s']
  by (auto simp: selectors_def maybeGetWasmTier1CompileTask_def maybeGetWasmTier2CompileTask_def)

lemma findFirstTask_None:
  assumes "\<forall>selector \<in> set table. quietOnNothing selector"
    and "findFirstTask table s = Inr (None, s')"
  shows "s' = s"
  using assms
proof (induction table)
  case Nil
  then show ?case by simp
next
  case (Cons selector rest)
  show ?case
  proof (cases "selector s")
    case (Inl c)
    with Cons.prems show ?thesis by simp
  next
    case (Inr r)
    obtain found s1 where r: "r = (found, s1)" by (cases r)
    show ?thesis
    proof (cases found)
      case None
      with Inr r Cons.prems(1) have "s1 = s" by (simp add: quietOnNothing_def)
      with None Inr r Cons.prems have "findFirstTask rest s = Inr (None, s')" by simp
      with Cons.IH Cons.prems(1) show ?thesis by auto
    next
      case (Some t)
      with Inr r Cons.prems show ?thesis by simp
    qed
  qed
qed

lemma find_untouched:
  assumes "findHighestPriorityTask s = Inr (r, s')"
  shows "registryUntouched s s'"
proof (cases r)
  case None
  with assms have "s' = s"
    using findFirstTask_None [OF quiet_selectors, of s s']
    by (simp add: findHighestPriorityTask_def)
  then show ?thesis by (simp add: untouched_refl)
next
  case (Some task)
  with assms obtain selector where "selector \<in> set selectors" "selector s = Inr (Some task, s')"
    using findFirstTask_Some [OF quiet_selectors, of s task s']
    by (auto simp: findHighestPriorityTask_def)
  then show ?thesis by (rule selectors_untouched)
qed

lemma find_admission:
  assumes "findHighestPriorityTask s = Inr (Some task, s')"
    and "\<forall>p. task \<noteq> DelazifyTask p" and "\<forall>p. task \<noteq> FreeDelazifyTask p"
  shows "admissionPredicate s task"
proof -
  from assms(1) obtain selector where "selector \<in> set selectors" "selector s = Inr (Some task, s')"
    using findFirstTask_Some [OF quiet_selectors, of s task s']
    by (auto simp: findHighestPriorityTask_def)
  with assms(2,3) show ?thesis
    by (blast intro: selector_admission)
qed


lemma threadType_generator:
  "threadType helper = THREAD_TYPE_WASM_GENERATOR_TIER2 \<longleftrightarrow> isTier2GeneratorTask helper"
  by (cases helper) auto

lemma threadType_compression:
  "threadType helper = THREAD_TYPE_COMPRESS \<longleftrightarrow> isSourceCompressionTask helper"
  by (cases helper) auto

lemma unat_inc:
  fixes x y :: size_t
  assumes "x < y"
  shows "unat (x + 1) = unat x + 1"
proof -
  have "unat y < 2 ^ 64"
    using unsigned_less [of y] by simp
  with assms have "unat x + 1 < (2 :: nat) ^ 64"
    by (simp add: word_less_nat_alt)
  then show ?thesis
    using unat_add_lem [of x 1] by simp
qed

lemma unat_inc_le:
  fixes x y :: size_t
  assumes "unat x \<le> unat z" and "z < y"
  shows "unat (x + 1) = unat x + 1"
proof -
  have "unat y < 2 ^ 64"
    using unsigned_less [of y] by simp
  with assms have "unat x + 1 < (2 :: nat) ^ 64"
    by (simp add: word_less_nat_alt)
  then show ?thesis
    using unat_add_lem [of x 1] by simp
qed

lemma length_filter_neq:
  assumes "distinct xs" and "x \<in> set xs"
  shows "length (filter (\<lambda>y. y \<noteq> x) xs) = length xs - 1"
proof -
  have "filter (\<lambda>y. y \<noteq> x) xs = removeAll x xs"
    by (induction xs) auto
  also have "\<dots> = remove1 x xs"
    using assms(1) by (simp add: distinct_remove1_removeAll)
  finally show ?thesis
    using assms(2) by (simp add: length_remove1)
qed

lemma begin_invariant:
  assumes inv: "registryInvariant s"
    and fresh: "task \<notin> set (helperTasks s)"
    and room: "totalCountRunningTasks s < threadCount s"
    and gen: "isTier2GeneratorTask task \<Longrightarrow> runningTaskCount s THREAD_TYPE_WASM_GENERATOR_TIER2 = 0"
    and comp: "isSourceCompressionTask task \<Longrightarrow> runningTaskCount s THREAD_TYPE_COMPRESS = 0"
  shows "registryInvariant (runTaskLocked_begin task s)"
proof -
  from inv have total: "unat (totalCountRunningTasks s) = length (helperTasks s)"
    and count: "\<And>t. unat (runningTaskCount s t) =
            length (filter (\<lambda>helper. threadType helper = t) (helperTasks s))"
    and dist: "distinct (helperTasks s)"
    and g1: "runningTaskCount s THREAD_TYPE_WASM_GENERATOR_TIER2 \<le> 1"
    and c1: "runningTaskCount s THREAD_TYPE_COMPRESS \<le> 1"
    by (simp_all add: registryInvariant_def registryConsistent_def)
  have t': "unat (totalCountRunningTasks s + 1) = length (helperTasks s) + 1"
    using unat_inc [OF room] total by simp
  have "unat (runningTaskCount s (threadType task)) \<le> unat (totalCountRunningTasks s)"
    by (simp add: total count)
  then have c': "unat (runningTaskCount s (threadType task) + 1) =
      length (filter (\<lambda>helper. threadType helper = threadType task) (helperTasks s)) + 1"
    using unat_inc_le [OF _ room] count by simp
  have g': "runningTaskCount s THREAD_TYPE_WASM_GENERATOR_TIER2 + 1 \<le> 1"
    if "threadType task = THREAD_TYPE_WASM_GENERATOR_TIER2"
    using that gen by (simp add: threadType_generator)
  have k': "runningTaskCount s THREAD_TYPE_COMPRESS + 1 \<le> 1"
    if "threadType task = THREAD_TYPE_COMPRESS"
    using that comp by (simp add: threadType_compression)
  show ?thesis
    unfolding registryInvariant_def registryConsistent_def runTaskLocked_begin_def Let_def
    using t' c' count dist fresh g1 c1 g' k' by auto
qed

lemma end_invariant:
  assumes inv: "registryInvariant s"
    and running: "task \<in> set (helperTasks s)"
  shows "registryInvariant (runTaskLocked_end task s)"
proof -
  from inv have total: "unat (totalCountRunningTasks s) = length (helperTasks s)"
    and count: "\<And>t. unat (runningTaskCount s t) =
            length (filter (\<lambda>helper. threadType helper = t) (helperTasks s))"
    and dist: "distinct (helperTasks s)"
    and g1: "runningTaskCount s THREAD_TYPE_WASM_GENERATOR_TIER2 \<le> 1"
    and c1: "runningTaskCount s THREAD_TYPE_COMPRESS \<le> 1"
    by (simp_all add: registryInvariant_def registryConsistent_def)
  let ?same = "filter (\<lambda>helper. threadType helper = threadType task) (helperTasks s)"
  from running have "length (helperTasks s) \<noteq> 0" by auto
  with total have "totalCountRunningTasks s \<noteq> 0" by auto
  then have t': "unat (totalCountRunningTasks s - 1) =
      length (filter (\<lambda>t. t \<noteq> task) (helperTasks s))"
    using total length_filter_neq [OF dist running] by (simp add: unat_minus_one)
  from running have in_same: "task \<in> set ?same" by simp
  from running have "length ?same \<noteq> 0" by (auto simp: filter_empty_conv)
  with count [of "threadType task"] have nz: "runningTaskCount s (threadType task) \<noteq> 0"
    by auto
  have "filter (\<lambda>helper. threadType helper = threadType task)
          (filter (\<lambda>t. t \<noteq> task) (helperTasks s)) = filter (\<lambda>t. t \<noteq> task) ?same"
    by (simp add: conj_commute)
  then have c': "unat (runningTaskCount s (threadType task) - 1) =
      length (filter (\<lambda>helper. threadType helper = threadType task)
          (filter (\<lambda>t. t \<noteq> task) (helperTasks s)))"
    using length_filter_neq [OF distinct_filter [OF dist] in_same] count [of "threadType task"] nz
    by (simp add: unat_minus_one)
  have other: "length (filter (\<lambda>helper. threadType helper = t)
          (filter (\<lambda>h. h \<noteq> task) (helperTasks s))) =
        length (filter (\<lambda>helper. threadType helper = t) (helperTasks s))"
    if "t \<noteq> threadType task" for t
  proof -
    have "filter (\<lambda>helper. threadType helper = t) (filter (\<lambda>h. h \<noteq> task) (helperTasks s)) =
        filter (\<lambda>helper. threadType helper = t) (helperTasks s)"
      using that by (auto intro: filter_cong)
    then show ?thesis by simp
  qed
  have dec: "x - 1 \<le> 1" if "x \<le> 1" "x \<noteq> 0" for x :: size_t
  proof -
    from that have "x = 1"
      by (metis word_le_less_eq word_less_1)
    then show ?thesis by simp
  qed
  show ?thesis
    unfolding registryInvariant_def registryConsistent_def runTaskLocked_end_def Let_def
    using t' c' other count dist g1 c1 nz dec by auto
qed


lemma generator_admitted_none_running:
  assumes "canStartWasmTier2GeneratorTask s"
  shows "runningTaskCount s THREAD_TYPE_WASM_GENERATOR_TIER2 = 0"
proof -
  from assms have "\<not> 1 \<le> runningTaskCount s THREAD_TYPE_WASM_GENERATOR_TIER2"
    by (auto simp: canStartWasmTier2GeneratorTask_def checkTaskThreadLimit_def Let_def
        maxWasmTier2GeneratorThreads_def MaxTier2GeneratorTasks_def split: if_splits)
  then show ?thesis
    by (simp add: not_le)
qed

lemma compression_admitted_none_running:
  assumes "canStartCompressionTask s" and "registryConsistent s"
    and "totalCountRunningTasks s < threadCount s"
  shows "runningTaskCount s THREAD_TYPE_COMPRESS = 0"
proof (cases "1 \<le> runningTaskCount s THREAD_TYPE_COMPRESS")
  case False
  then show ?thesis by (simp add: not_le)
next
  case True
  with assms(1) have "threadCount s \<le> 1"
    by (auto simp: canStartCompressionTask_def checkTaskThreadLimit_def Let_def
        maxCompressionThreads_def split: if_splits)
  with assms(3) have "totalCountRunningTasks s = 0"
    by (metis word_less_1 order.strict_trans2)
  with assms(2) have "helperTasks s = []"
    by (simp add: registryConsistent_def)
  with assms(2) have "unat (runningTaskCount s THREAD_TYPE_COMPRESS) = 0"
    by (simp add: registryConsistent_def)
  then show ?thesis
    by (simp add: unat_eq_zero)
qed

lemma reachable_invariant:
  "reachable s \<Longrightarrow> registryInvariant s"
proof (induction rule: reachable.induct)
  case (initialized s0 s)
  from configured_fresh [OF initialized(1)] initialized(2) show ?case
    by (auto simp: ensureInitialized_def Let_def registryInvariant_def registryConsistent_def)
next
  case (submitted s submission allocOk result s')
  then show ?case
    by (blast intro: invariant_untouched submit_untouched)
next
  case (started s task s1)
  let ?s0 = "s\<lparr> tasksPending := tasksPending s - 1 \<rparr>"
  have u0: "registryUntouched s ?s0"
    by (simp add: registryUntouched_def)
  have u1: "registryUntouched ?s0 s1"
    using started(3) by (rule find_untouched)
  have inv0: "registryInvariant ?s0"
    using started.IH u0 by (rule invariant_untouched)
  have inv1: "registryInvariant s1"
    using inv0 u1 by (rule invariant_untouched)
  have same: "helperTasks s1 = helperTasks s" "totalCountRunningTasks s1 = totalCountRunningTasks s"
    "threadCount s1 = threadCount s" "runningTaskCount s1 = runningTaskCount s"
    using u0 u1 by (simp_all add: registryUntouched_def)
  have gen: "runningTaskCount s1 THREAD_TYPE_WASM_GENERATOR_TIER2 = 0"
    if "isTier2GeneratorTask task"
  proof -
    from that obtain p where p: "task = Tier2GeneratorTask p" by (cases task) auto
    with started(3) have "admissionPredicate ?s0 task"
      by (intro find_admission) auto
    with p have "runningTaskCount ?s0 THREAD_TYPE_WASM_GENERATOR_TIER2 = 0"
      using generator_admitted_none_running [of ?s0] by simp
    with same show ?thesis by simp
  qed
  have comp: "runningTaskCount s1 THREAD_TYPE_COMPRESS = 0"
    if "isSourceCompressionTask task"
  proof -
    from that obtain p where p: "task = SourceCompressionTask p" by (cases task) auto
    with started(3) have "admissionPredicate ?s0 task"
      by (intro find_admission) auto
    with p have "canStartCompressionTask ?s0" by simp
    moreover have "registryConsistent ?s0"
      using inv0 by (simp add: registryInvariant_def)
    moreover have "totalCountRunningTasks ?s0 < threadCount ?s0"
      using started(2) by simp
    ultimately have "runningTaskCount ?s0 THREAD_TYPE_COMPRESS = 0"
      by (rule compression_admitted_none_running)
    with same show ?thesis by simp
  qed
  show ?case
    using inv1 started(2,4) same gen comp by (intro begin_invariant) simp_all
next
  case (nothingToDo s s1)
  have "registryUntouched s (s\<lparr> tasksPending := tasksPending s - 1 \<rparr>)"
    by (simp add: registryUntouched_def)
  with nothingToDo show ?case
    by (blast intro: invariant_untouched find_untouched)
next
  case (retired s task s')
  then show ?case
    by (blast intro: invariant_untouched end_invariant dispatch_untouched)
next
  case (otherLocked s s')
  then show ?case
    by (blast intro: invariant_untouched)
qed

lemma reachable_exampleBoot: "reachable (exampleBoot probed)"
proof -
  let ?c = "GlobalHelperThreadState_ctor probed (\<lambda>t. 0) False THREAD_TYPE_NONE
          (\<lambda>p. exampleObj) (\<lambda>r. []) (\<lambda>r. 0)"
  have "\<not> isInitialized ?c"
    by (simp add: GlobalHelperThreadState_ctor_def Let_def)
  then have "ensureInitialized True ?c = (True, exampleBoot probed)"
    by (simp add: exampleBoot_def ensureInitialized_def Let_def)
  with configured.constructed show ?thesis
    by (rule reachable.initialized)
qed

lemma reachable_exampleParseRunning: "reachable exampleParseRunning"
proof -
  have "submitTask (SubmitParse 1) True (exampleBoot 4) = Inr (True, exampleParseA)"
    by (simp add: exampleParseA_def eval_defs)
  with reachable_exampleBoot have "reachable exampleParseA"
    by (rule reachable.submitted)
  moreover have "submitTask (SubmitParse 2) True exampleParseA = Inr (True, exampleParseAB)"
    by (simp add: exampleParseA_def exampleParseAB_def eval_defs)
  ultimately have r: "reachable exampleParseAB"
    by (rule reachable.submitted)
  have "totalCountRunningTasks exampleParseAB < threadCount exampleParseAB"
    and "findHighestPriorityTask (exampleParseAB\<lparr> tasksPending := tasksPending exampleParseAB - 1 \<rparr>)
      = Inr (Some (ParseTask 2), exampleParseAB\<lparr> tasksPending := 1, parseWorklist := [1] \<rparr>)"
    and "ParseTask 2 \<notin> set (helperTasks exampleParseAB)"
    by (simp_all add: exampleParseAB_def findHighestPriorityTask_def selectors_def selector_defs
        eval_defs)
  with r show ?thesis
    unfolding exampleParseRunning_def by (rule reachable.started)
qed

lemma reachable_exampleCompressionRunning: "reachable exampleCompressionRunning"
proof -
  have "submitTask (SubmitCompression 1) True (exampleBoot 4) = Inr (True, exampleCompressionA)"
    by (simp add: exampleCompressionA_def eval_defs)
  with reachable_exampleBoot have "reachable exampleCompressionA"
    by (rule reachable.submitted)
  moreover have "submitTask (SubmitCompression 2) True exampleCompressionA
      = Inr (True, exampleCompressionAB)"
    by (simp add: exampleCompressionA_def exampleCompressionAB_def eval_defs)
  ultimately have r: "reachable exampleCompressionAB"
    by (rule reachable.submitted)
  have "totalCountRunningTasks exampleCompressionAB < threadCount exampleCompressionAB"
    and "findHighestPriorityTask
        (exampleCompressionAB\<lparr> tasksPending := tasksPending exampleCompressionAB - 1 \<rparr>)
      = Inr (Some (SourceCompressionTask 2),
             exampleCompressionAB\<lparr> tasksPending := 1, compressionWorklist := [1] \<rparr>)"
    and "SourceCompressionTask 2 \<notin> set (helperTasks exampleCompressionAB)"
    by (simp_all add: exampleCompressionAB_def findHighestPriorityTask_def selectors_def
        selector_defs eval_defs)
  with r show ?thesis
    unfolding exampleCompressionRunning_def by (rule reachable.started)
qed

lemma reachable_exampleOneThread: "reachable exampleOneThread"
proof -
  let ?c = "setDispatchTaskCallback 1
      (GlobalHelperThreadState_ctor 2 (\<lambda>t. 0) False THREAD_TYPE_NONE
         (\<lambda>p. exampleObj) (\<lambda>r. []) (\<lambda>r. 0))"
  have "configured ?c"
    by (intro configured.callbackSet configured.constructed)
  moreover have "\<not> isInitialized ?c"
    by (simp add: setDispatchTaskCallback_def GlobalHelperThreadState_ctor_def Let_def)
  then have "ensureInitialized True ?c = (True, exampleOneThread)"
    by (simp add: exampleOneThread_def ensureInitialized_def Let_def)
  ultimately show ?thesis
    by (rule reachable.initialized)
qed

lemmas one_thread_defs = exampleOneThread_def setDispatchTaskCallback_def

lemma runTaskLocked_restores:
  assumes "task \<notin> set (helperTasks s)"
    and "registryUntouched (runTaskLocked_begin task s)
           (runHelperThreadTask task (runTaskLocked_begin task s))"
  shows "registryUntouched s (runTaskLocked runHelperThreadTask task s)"
proof -
  have "filter (\<lambda>t. t \<noteq> task) (helperTasks s) = helperTasks s"
    using assms(1) by (auto intro: filter_True)
  with assms(2) show ?thesis
    by (auto simp: registryUntouched_def runTaskLocked_def runTaskLocked_begin_def
        runTaskLocked_end_def Let_def)
qed

text \<open>
  Claim C10. In every reachable state, that is whenever the lock is free and no thread
  is between the two halves of its own bookkeeping, \<open>totalCountRunningTasks\<close> is the
  number of entries of the registry and \<open>runningTaskCount[t]\<close> the number of entries of
  thread type \<open>t\<close>. A task is in the registry when the first half of \<open>runTaskLocked\<close> ends
  and out of it when the second half ends; and if the task was not registered before and
  nothing else wrote the registry while it ran, \<open>runTaskLocked\<close> leaves registry and
  counters as it found them.
\<close>

theorem registry_bookkeeping:
  "(reachable s \<longrightarrow>
      unat (totalCountRunningTasks s) = length (helperTasks s) \<and>
      (\<forall>t. unat (runningTaskCount s t) =
            length (filter (\<lambda>helper. threadType helper = t) (helperTasks s)))) \<and>
   task \<in> set (helperTasks (runTaskLocked_begin task s)) \<and>
   task \<notin> set (helperTasks (runTaskLocked_end task s)) \<and>
   (task \<notin> set (helperTasks s) \<and>
    registryUntouched (runTaskLocked_begin task s)
      (runHelperThreadTask task (runTaskLocked_begin task s)) \<longrightarrow>
      registryUntouched s (runTaskLocked runHelperThreadTask task s))"
proof (intro conjI impI)
  assume "reachable s"
  then have "registryConsistent s"
    using reachable_invariant by (simp add: registryInvariant_def)
  then show "unat (totalCountRunningTasks s) = length (helperTasks s)"
    and "\<forall>t. unat (runningTaskCount s t) =
            length (filter (\<lambda>helper. threadType helper = t) (helperTasks s))"
    by (simp_all add: registryConsistent_def)
next
  show "task \<in> set (helperTasks (runTaskLocked_begin task s))"
    by (simp add: runTaskLocked_begin_def Let_def)
next
  show "task \<notin> set (helperTasks (runTaskLocked_end task s))"
    by (simp add: runTaskLocked_end_def Let_def)
next
  assume "task \<notin> set (helperTasks s) \<and>
    registryUntouched (runTaskLocked_begin task s)
      (runHelperThreadTask task (runTaskLocked_begin task s))"
  then show "registryUntouched s (runTaskLocked runHelperThreadTask task s)"
    using runTaskLocked_restores by blast
qed

text \<open>
  The state in which a worker runs parse task 2 is reachable, and there both counters
  are 1, as the registry is.
\<close>

theorem registry_bookkeeping_witness:
  "reachable exampleParseRunning \<and>
   helperTasks exampleParseRunning = [ParseTask 2] \<and>
   totalCountRunningTasks exampleParseRunning = 1 \<and>
   unat (totalCountRunningTasks exampleParseRunning) = length (helperTasks exampleParseRunning) \<and>
   (\<forall>t. unat (runningTaskCount exampleParseRunning t) =
         length (filter (\<lambda>helper. threadType helper = t) (helperTasks exampleParseRunning))) \<and>
   runningTaskCount exampleParseRunning THREAD_TYPE_PARSE = 1"
proof -
  have "helperTasks exampleParseRunning = [ParseTask 2]"
    and "totalCountRunningTasks exampleParseRunning = 1"
    and "runningTaskCount exampleParseRunning THREAD_TYPE_PARSE = 1"
    by (simp_all add: exampleParseRunning_def exampleParseAB_def example_defs)
  with registry_bookkeeping [of exampleParseRunning] reachable_exampleParseRunning
  show ?thesis
    by simp
qed

subsection \<open>Kinds with a single slot\<close>

lemma count_generators:
  "length (filter isTier2GeneratorTask helpers) =
   length (filter (\<lambda>helper. threadType helper = THREAD_TYPE_WASM_GENERATOR_TIER2) helpers)"
  by (simp add: threadType_generator)

lemma count_compressions:
  "length (filter isSourceCompressionTask helpers) =
   length (filter (\<lambda>helper. threadType helper = THREAD_TYPE_COMPRESS) helpers)"
  by (simp add: threadType_compression)

lemma generator_running_refused:
  assumes "registryConsistent s" and "helper \<in> set (helperTasks s)"
    and "isTier2GeneratorTask helper"
  shows "\<not> canStartWasmTier2GeneratorTask s"
proof
  assume "canStartWasmTier2GeneratorTask s"
  then have "runningTaskCount s THREAD_TYPE_WASM_GENERATOR_TIER2 = 0"
    by (rule generator_admitted_none_running)
  moreover from assms(1) have "unat (runningTaskCount s THREAD_TYPE_WASM_GENERATOR_TIER2) =
      length (filter isTier2GeneratorTask (helperTasks s))"
    unfolding count_generators registryConsistent_def by blast
  ultimately have "length (filter isTier2GeneratorTask (helperTasks s)) = 0"
    by simp
  then have "filter isTier2GeneratorTask (helperTasks s) = []"
    by simp
  with assms(2,3) show False
    by (auto simp: filter_empty_conv)
qed

lemma compression_running_refused:
  assumes "registryConsistent s" and "helper \<in> set (helperTasks s)"
    and "isSourceCompressionTask helper"
    and "1 < threadCount s \<or> totalCountRunningTasks s < threadCount s"
  shows "\<not> canStartCompressionTask s"
proof
  assume can: "canStartCompressionTask s"
  have "runningTaskCount s THREAD_TYPE_COMPRESS = 0"
  proof (cases "1 < threadCount s")
    case True
    with can have "\<not> 1 \<le> runningTaskCount s THREAD_TYPE_COMPRESS"
      by (auto simp: canStartCompressionTask_def checkTaskThreadLimit_def Let_def
          maxCompressionThreads_def split: if_splits)
    then show ?thesis by (simp add: not_le)
  next
    case False
    with assms(4) have "totalCountRunningTasks s < threadCount s" by simp
    with can assms(1) show ?thesis
      by (rule compression_admitted_none_running)
  qed
  moreover from assms(1) have "unat (runningTaskCount s THREAD_TYPE_COMPRESS) =
      length (filter isSourceCompressionTask (helperTasks s))"
    unfolding count_compressions registryConsistent_def by blast
  ultimately have "length (filter isSourceCompressionTask (helperTasks s)) = 0"
    by simp
  then have "filter isSourceCompressionTask (helperTasks s) = []"
    by simp
  with assms(2,3) show False
    by (auto simp: filter_empty_conv)
qed

lemma reachable_exampleOneThreadCompression: "reachable exampleOneThreadCompression"
proof -
  have "submitTask (SubmitCompression 1) True exampleOneThread
      = Inr (True, exampleOneThreadCompressionA)"
    by (simp add: exampleOneThreadCompressionA_def one_thread_defs eval_defs)
  with reachable_exampleOneThread have "reachable exampleOneThreadCompressionA"
    by (rule reachable.submitted)
  moreover have "submitTask (SubmitCompression 2) True exampleOneThreadCompressionA
      = Inr (True, exampleOneThreadCompressionAB)"
    by (simp add: exampleOneThreadCompressionA_def exampleOneThreadCompressionAB_def
        one_thread_defs eval_defs)
  ultimately have r: "reachable exampleOneThreadCompressionAB"
    by (rule reachable.submitted)
  have "totalCountRunningTasks exampleOneThreadCompressionAB
        < threadCount exampleOneThreadCompressionAB"
    and "findHighestPriorityTask
        (exampleOneThreadCompressionAB
           \<lparr> tasksPending := tasksPending exampleOneThreadCompressionAB - 1 \<rparr>)
      = Inr (Some (SourceCompressionTask 2),
             exampleOneThreadCompressionAB\<lparr> tasksPending := 0, compressionWorklist := [1] \<rparr>)"
    and "SourceCompressionTask 2 \<notin> set (helperTasks exampleOneThreadCompressionAB)"
    by (simp_all add: exampleOneThreadCompressionAB_def one_thread_defs
        findHighestPriorityTask_def selectors_def selector_defs eval_defs)
  with r show ?thesis
    unfolding exampleOneThreadCompression_def by (rule reachable.started)
qed

lemma compression_single_thread:
  "threadCount s \<le> 1 \<Longrightarrow> canStartCompressionTask s = (compressionWorklist s \<noteq> [])"
  by (simp add: canStartCompressionTask_def checkTaskThreadLimit_def maxCompressionThreads_def)

text \<open>
  Claim C7. The maximum of the wasm tier-2 generator kind and of the compression kind
  is 1. In every reachable state the registry holds at most one tier-2 generator task
  and at most one compression task. While a generator runs, \<open>canStartWasmTier2GeneratorTask\<close>
  is false and selection returns no generator. While a compression task runs and there
  are at least two worker threads (or a worker thread is idle),
  \<open>canStartCompressionTask\<close> is false and selection returns no compression task. With a
  single worker thread the limit of the compression kind is not checked:
  \<open>canStartCompressionTask\<close> holds whenever the compression worklist is not empty.
\<close>

theorem single_slot_kinds:
  "maxWasmTier2GeneratorThreads s = 1 \<and> maxCompressionThreads s = 1 \<and>
   (reachable s \<longrightarrow>
      length (filter isTier2GeneratorTask (helperTasks s)) \<le> 1 \<and>
      length (filter isSourceCompressionTask (helperTasks s)) \<le> 1 \<and>
      (helper \<in> set (helperTasks s) \<and> isTier2GeneratorTask helper \<longrightarrow>
         \<not> canStartWasmTier2GeneratorTask s \<and>
         (findHighestPriorityTask s = Inr (Some task, s') \<longrightarrow> \<not> isTier2GeneratorTask task)) \<and>
      (helper \<in> set (helperTasks s) \<and> isSourceCompressionTask helper \<and>
       (1 < threadCount s \<or> totalCountRunningTasks s < threadCount s) \<longrightarrow>
         \<not> canStartCompressionTask s \<and>
         (findHighestPriorityTask s = Inr (Some task, s') \<longrightarrow> \<not> isSourceCompressionTask task))) \<and>
   (threadCount s \<le> 1 \<longrightarrow> canStartCompressionTask s = (compressionWorklist s \<noteq> []))"
proof (intro conjI impI)
  show "maxWasmTier2GeneratorThreads s = 1"
    by (simp add: maxWasmTier2GeneratorThreads_def MaxTier2GeneratorTasks_def)
  show "maxCompressionThreads s = 1"
    by (simp add: maxCompressionThreads_def)
next
  assume "threadCount s \<le> 1"
  then show "canStartCompressionTask s = (compressionWorklist s \<noteq> [])"
    by (rule compression_single_thread)
next
  assume "reachable s"
  then have inv: "registryInvariant s"
    by (rule reachable_invariant)
  then have cons: "registryConsistent s"
    by (simp add: registryInvariant_def)
  from inv have "unat (runningTaskCount s THREAD_TYPE_WASM_GENERATOR_TIER2) \<le> 1"
    and "unat (runningTaskCount s THREAD_TYPE_COMPRESS) \<le> 1"
    by (simp_all add: registryInvariant_def word_le_nat_alt)
  with cons show "length (filter isTier2GeneratorTask (helperTasks s)) \<le> 1"
    and "length (filter isSourceCompressionTask (helperTasks s)) \<le> 1"
    by (simp_all add: registryConsistent_def count_generators count_compressions)
  {
    assume h: "helper \<in> set (helperTasks s) \<and> isTier2GeneratorTask helper"
    with cons show no: "\<not> canStartWasmTier2GeneratorTask s"
      using generator_running_refused by blast
    assume f: "findHighestPriorityTask s = Inr (Some task, s')"
    show "\<not> isTier2GeneratorTask task"
    proof
      assume "isTier2GeneratorTask task"
      then obtain p where p: "task = Tier2GeneratorTask p" by (cases task) auto
      with f have "admissionPredicate s task"
        by (intro find_admission) auto
      with p no show False by simp
    qed
  }
  {
    assume h: "helper \<in> set (helperTasks s) \<and> isSourceCompressionTask helper \<and>
       (1 < threadCount s \<or> totalCountRunningTasks s < threadCount s)"
    with cons show no: "\<not> canStartCompressionTask s"
      using compression_running_refused by blast
    assume f: "findHighestPriorityTask s = Inr (Some task, s')"
    show "\<not> isSourceCompressionTask task"
    proof
      assume "isSourceCompressionTask task"
      then obtain p where p: "task = SourceCompressionTask p" by (cases task) auto
      with f have "admissionPredicate s task"
        by (intro find_admission) auto
      with p no show False by simp
    qed
  }
qed

text \<open>
  With compression task 2 running and compression task 1 queued, three of four threads
  idle, the second compression task is refused.
\<close>

theorem single_slot_kinds_witness:
  "reachable exampleCompressionRunning \<and>
   helperTasks exampleCompressionRunning = [SourceCompressionTask 2] \<and>
   compressionWorklist exampleCompressionRunning = [1] \<and>
   totalCountRunningTasks exampleCompressionRunning < threadCount exampleCompressionRunning \<and>
   length (filter isSourceCompressionTask (helperTasks exampleCompressionRunning)) \<le> 1 \<and>
   \<not> canStartCompressionTask exampleCompressionRunning"
proof -
  have facts: "helperTasks exampleCompressionRunning = [SourceCompressionTask 2]"
    "compressionWorklist exampleCompressionRunning = [1]"
    "totalCountRunningTasks exampleCompressionRunning < threadCount exampleCompressionRunning"
    by (simp_all add: exampleCompressionRunning_def exampleCompressionAB_def example_defs)
  then have "SourceCompressionTask 2 \<in> set (helperTasks exampleCompressionRunning)"
    and "isSourceCompressionTask (SourceCompressionTask 2)"
    by simp_all
  with single_slot_kinds [of exampleCompressionRunning "SourceCompressionTask 2"]
    reachable_exampleCompressionRunning facts
  show ?thesis
    by blast
qed

text \<open>
  Claim C7, the case it misses. With a pool of one thread the state in which that
  thread runs compression task 2 while compression task 1 is queued is reachable. There
  the admission predicate of the compression kind holds, and the selector of the kind
  hands out the second compression task.
\<close>

theorem second_compression_admitted_counterexample:
  "reachable exampleOneThreadCompression \<and>
   threadCount exampleOneThreadCompression = 1 \<and>
   helperTasks exampleOneThreadCompression = [SourceCompressionTask 2] \<and>
   compressionWorklist exampleOneThreadCompression = [1] \<and>
   canStartCompressionTask exampleOneThreadCompression \<and>
   maybeGetCompressionTask exampleOneThreadCompression =
     Inr (Some (SourceCompressionTask 1),
          exampleOneThreadCompression\<lparr> compressionWorklist := [] \<rparr>)"
proof -
  have "threadCount exampleOneThreadCompression = 1"
    and "helperTasks exampleOneThreadCompression = [SourceCompressionTask 2]"
    and "compressionWorklist exampleOneThreadCompression = [1]"
    and "canStartCompressionTask exampleOneThreadCompression"
    and "maybeGetCompressionTask exampleOneThreadCompression =
     Inr (Some (SourceCompressionTask 1),
          exampleOneThreadCompression\<lparr> compressionWorklist := [] \<rparr>)"
    by (simp_all add: exampleOneThreadCompression_def exampleOneThreadCompressionAB_def
        one_thread_defs maybeGetCompressionTask_def eval_defs)
  with reachable_exampleOneThreadCompression show ?thesis
    by simp
qed

subsection \<open>Wasm tier split\<close>

lemma bitLength_zero: "bitLength 0 = 0"
  by (subst bitLength.simps) simp

lemma bitLength_numeral: "bitLength (numeral n) = Suc (bitLength (numeral n div 2))"
  by (subst bitLength.simps) simp

lemma bitLength_one: "bitLength 1 = 1" "bitLength (Suc 0) = 1"
  by (subst bitLength.simps, simp add: bitLength_zero)+

lemma bitLength_le: "n < 2 ^ k \<Longrightarrow> bitLength n \<le> k"
proof (induction k arbitrary: n)
  case 0
  then show ?case by (simp add: bitLength_zero)
next
  case (Suc k)
  show ?case
  proof (cases "n = 0")
    case True
    then show ?thesis by (simp add: bitLength_zero)
  next
    case False
    from Suc.prems have "n div 2 < 2 ^ k" by auto
    then have "bitLength (n div 2) \<le> k" by (rule Suc.IH)
    with False show ?thesis by (subst bitLength.simps) simp
  qed
qed

lemma toDouble_small: "n < 2 ^ 53 \<Longrightarrow> toDouble n = n"
  using bitLength_le [of n 53] by (simp add: toDouble_def Let_def)

lemma roundTiesToEven_3: "roundTiesToEven x 3 = (x + 1) div 3"
  unfolding roundTiesToEven_def Let_def by presburger

lemma ceiling_div_nat:
  assumes "0 < d"
  shows "nat \<lceil>real m / real d\<rceil> = (m + d - 1) div d"
proof -
  have "\<lceil>real m / real d\<rceil> = \<lceil>real_of_int (int m) / real_of_int (int d)\<rceil>" by simp
  also have "\<dots> = - ((- int m) div int d)"
    by (simp only: ceiling_divide_eq_div)
  also have "\<dots> = (if int m mod int d = 0 then int m div int d else int m div int d + 1)"
    using assms by (simp add: zdiv_zminus1_eq_if)
  also have "\<dots> = int (if m mod d = 0 then m div d else m div d + 1)"
  proof -
    have "(int m mod int d = 0) = (m mod d = 0)"
      by (simp only: of_nat_mod [symmetric] of_nat_eq_0_iff)
    moreover have "int m div int d = int (m div d)"
      by (simp only: of_nat_div)
    ultimately show ?thesis by simp
  qed
  finally have c: "nat \<lceil>real m / real d\<rceil> = (if m mod d = 0 then m div d else m div d + 1)"
    by simp
  obtain q r where qr: "m = q * d + r" "r < d"
    by (metis assms div_mult_mod_eq mod_less_divisor)
  have "(m + d - 1) div d = (if r = 0 then q else q + 1)"
    using qr assms by (intro div_nat_eqI) (auto simp: algebra_simps)
  moreover have "m mod d = r" "m div d = q"
    using qr by simp_all
  ultimately show ?thesis using c by simp
qed

lemma ceil_third: "nat \<lceil>real n / 3\<rceil> = (n + 2) div 3"
  using ceiling_div_nat [of 3 n] by simp

lemma third_scaled:
  assumes "2 \<le> K"
  shows "((n * K + 1) div 3 + K - 1) div K = (n + 2) div (3::nat)"
proof -
  obtain j r where n: "n = 3 * j + r" "r < 3"
    by (metis div_mult_mod_eq mult.commute mod_less_divisor zero_less_numeral)
  have "(n * K + 1) div 3 = j * K + (r * K + 1) div 3"
    using n by (simp add: algebra_simps)
  moreover have "(j * K + (r * K + 1) div 3 + K - 1) div K
      = j + ((r * K + 1) div 3 + K - 1) div K"
  proof -
    have "j * K + (r * K + 1) div 3 + K - 1 = ((r * K + 1) div 3 + K - 1) + j * K"
      using assms by simp
    then show ?thesis
      using assms by (simp only: div_mult_self1)
  qed
  moreover have "((r * K + 1) div 3 + K - 1) div K = (r + 2) div 3"
  proof -
    consider "r = 0" | "r = 1" | "r = 2" using n by linarith
    then show ?thesis
    proof cases
      case 1
      then show ?thesis using assms by simp
    next
      case 2
      have "((K + 1) div 3 + K - 1) div K = 1"
        using assms by (intro div_nat_eqI) auto
      with 2 show ?thesis by simp
    next
      case 3
      have "((2 * K + 1) div 3 + K - 1) div K = 1"
        using assms by (intro div_nat_eqI) auto
      with 3 show ?thesis by simp
    qed
  qed
  moreover have "(n + 2) div 3 = j + (r + 2) div 3"
    using n by simp
  ultimately show ?thesis by simp
qed

lemma thirdExponent_small: "0 < d \<Longrightarrow> d < 2 ^ 53 \<Longrightarrow> thirdExponent d \<le> 51"
  using bitLength_le [of "d div 3" 52] by (auto simp: thirdExponent_def)

text \<open>
  Below \<open>2^53\<close> the conversion to \<open>double\<close> is exact and the rounded quotient has at
  least one binary digit after the point, so that rounding it up gives the ceiling of the
  exact quotient.
\<close>

lemma ceil_double:
  assumes "n < 2 ^ 53"
  shows "nat \<lceil>divDouble3 (toDouble n)\<rceil> = (n + 2) div 3"
proof (cases "n = 0")
  case True
  then show ?thesis by (simp add: toDouble_small divDouble3_def)
next
  case False
  define k where "k = nat (52 - thirdExponent n)"
  have e: "thirdExponent n \<le> 51"
    using thirdExponent_small [of n] False assms by simp
  then have k: "1 \<le> k" by (simp add: k_def)
  then have K: "(2::nat) \<le> 2 ^ k"
    by (metis One_nat_def power_increasing power_one_right one_le_numeral)
  have "divDouble3 (toDouble n) = real ((n * 2 ^ k + 1) div 3) / real (2 ^ k)"
    using False e assms
    by (simp add: toDouble_small divDouble3_def Let_def k_def roundTiesToEven_3)
  then have "nat \<lceil>divDouble3 (toDouble n)\<rceil> = ((n * 2 ^ k + 1) div 3 + 2 ^ k - 1) div 2 ^ k"
    by (simp only: ceiling_div_nat [of "2 ^ k"] zero_less_power zero_less_numeral)
  then show ?thesis
    using third_scaled [OF K, of n] by simp
qed

text \<open>
  From \<open>2^53 + 5\<close> on the two can differ: that count becomes the \<open>double\<close> \<open>2^53 + 4\<close>,
  a third of which is a whole number.
\<close>

lemma double_rounding_beyond_significand:
  "nat \<lceil>divDouble3 (toDouble (2 ^ 53 + 5))\<rceil> = 3002399751580332 \<and>
   nat \<lceil>real (2 ^ 53 + 5) / 3\<rceil> = 3002399751580333"
  by (simp add: toDouble_def divDouble3_def thirdExponent_def roundTiesToEven_def Let_def
      bitLength_numeral bitLength_zero bitLength_one)

lemma physCores_ceiling:
  assumes "unat (cpuCount s) < 2 ^ 53"
  shows "physCoresAvailable s = of_nat (nat \<lceil>real (unat (cpuCount s)) / 3\<rceil>)"
  unfolding physCoresAvailable_def ceil_double [OF assms] ceil_third ..

lemma physCores_unat:
  assumes "unat (cpuCount s) < 2 ^ 53"
  shows "unat (physCoresAvailable s) = (unat (cpuCount s) + 2) div 3"
proof -
  have "unat (cpuCount s) < 2 ^ 64"
    using unsigned_less [of "cpuCount s"] by simp
  then have "(unat (cpuCount s) + 2) div 3 < 2 ^ 64"
    by simp
  then show ?thesis
    unfolding physCoresAvailable_def ceil_double [OF assms] by (simp add: unat_of_nat)
qed

lemma physCores_nonzero:
  assumes "1 < cpuCount s" and "unat (cpuCount s) < 2 ^ 53"
  shows "physCoresAvailable s \<noteq> 0"
proof -
  from assms(1) have "1 < unat (cpuCount s)"
    by (simp add: word_less_nat_alt)
  then have "0 < unat (physCoresAvailable s)"
    by (simp add: physCores_unat [OF assms(2)])
  then show ?thesis
    by (simp add: unat_gt_0)
qed

lemma physCores_two: "cpuCount s = 2 \<Longrightarrow> physCoresAvailable s = 1"
proof -
  assume two: "cpuCount s = 2"
  then have "unat (physCoresAvailable s) = 1"
    by (simp add: physCores_unat)
  then show ?thesis
    by (metis unat_1 word_unat_eq_iff)
qed

lemma limit_bypassed:
  "threadCount s \<le> maxThreads \<Longrightarrow> checkTaskThreadLimit s threadType' maxThreads False"
  by (simp add: checkTaskThreadLimit_def)

lemma limit_reached:
  "maxThreads < threadCount s \<Longrightarrow> maxThreads \<le> runningTaskCount s threadType' \<Longrightarrow>
   \<not> checkTaskThreadLimit s threadType' maxThreads False"
  by (auto simp: checkTaskThreadLimit_def)

text \<open>
  Claim C6. Let the backlog be the length of the tier-2 generator worklist. With a
  backlog above 20, tier-1 compilation is never admitted (its budget is 0, and the
  predicate returns false unless the release assertion on the CPU count aborts), and
  tier-2 compilation is checked against the full wasm budget
  \<open>maxWasmCompilationThreads\<close>. With a backlog of at most 20 and a CPU count below
  \<open>2^53\<close>, tier-2 compilation is checked against \<open>ceil (cpuCount / 3)\<close> threads. The
  check limits tier-2 only where that budget is below the thread count: there tier-2 is
  refused as soon as that many tier-2 compilations run; where the budget is at least
  the thread count, tier-2 is admitted whenever its worklist is not empty.
\<close>

theorem wasm_tier_split_policy:
  "(20 < length (wasmTier2GeneratorWorklist s) \<longrightarrow>
      canStartWasmCompile s Tier1 \<noteq> Inr True) \<and>
   (1 < cpuCount s \<longrightarrow>
     (20 < length (wasmTier2GeneratorWorklist s) \<longrightarrow>
        canStartWasmCompile s Tier1 = Inr False \<and>
        canStartWasmCompile s Tier2 =
          Inr (wasmWorklist_tier2 s \<noteq> [] \<and> maxWasmCompilationThreads s \<noteq> 0 \<and>
               checkTaskThreadLimit s THREAD_TYPE_WASM_COMPILE_TIER2
                 (maxWasmCompilationThreads s) False)) \<and>
     (length (wasmTier2GeneratorWorklist s) \<le> 20 \<and> unat (cpuCount s) < 2 ^ 53 \<longrightarrow>
        canStartWasmCompile s Tier2 =
          Inr (wasmWorklist_tier2 s \<noteq> [] \<and>
               checkTaskThreadLimit s THREAD_TYPE_WASM_COMPILE_TIER2
                 (of_nat (nat \<lceil>real (unat (cpuCount s)) / 3\<rceil>)) False) \<and>
        (of_nat (nat \<lceil>real (unat (cpuCount s)) / 3\<rceil>) < threadCount s \<longrightarrow>
         of_nat (nat \<lceil>real (unat (cpuCount s)) / 3\<rceil>)
           \<le> runningTaskCount s THREAD_TYPE_WASM_COMPILE_TIER2 \<longrightarrow>
         canStartWasmCompile s Tier2 = Inr False) \<and>
        (threadCount s \<le> of_nat (nat \<lceil>real (unat (cpuCount s)) / 3\<rceil>) \<longrightarrow>
         canStartWasmCompile s Tier2 = Inr (wasmWorklist_tier2 s \<noteq> []))))"
proof -
  have tier1: "20 < length (wasmTier2GeneratorWorklist s) \<Longrightarrow>
      canStartWasmCompile s Tier1 \<noteq> Inr True"
    by (simp add: canStartWasmCompile_def)
  have tier1': "1 < cpuCount s \<Longrightarrow> 20 < length (wasmTier2GeneratorWorklist s) \<Longrightarrow>
      canStartWasmCompile s Tier1 = Inr False"
    by (simp add: canStartWasmCompile_def)
  have over: "1 < cpuCount s \<Longrightarrow> 20 < length (wasmTier2GeneratorWorklist s) \<Longrightarrow>
      canStartWasmCompile s Tier2 =
          Inr (wasmWorklist_tier2 s \<noteq> [] \<and> maxWasmCompilationThreads s \<noteq> 0 \<and>
               checkTaskThreadLimit s THREAD_TYPE_WASM_COMPILE_TIER2
                 (maxWasmCompilationThreads s) False)"
    by (simp add: canStartWasmCompile_def wasmWorklist_def Let_def)
  have under: "canStartWasmCompile s Tier2 =
          Inr (wasmWorklist_tier2 s \<noteq> [] \<and>
               checkTaskThreadLimit s THREAD_TYPE_WASM_COMPILE_TIER2
                 (of_nat (nat \<lceil>real (unat (cpuCount s)) / 3\<rceil>)) False)"
    if "1 < cpuCount s" "length (wasmTier2GeneratorWorklist s) \<le> 20"
      "unat (cpuCount s) < 2 ^ 53"
    using that(1,2) physCores_nonzero [OF that(1,3)]
    unfolding canStartWasmCompile_def wasmWorklist_def Let_def physCores_ceiling [OF that(3)]
    by auto
  have bound: "canStartWasmCompile s Tier2 = Inr False"
    if "1 < cpuCount s" "length (wasmTier2GeneratorWorklist s) \<le> 20"
      "unat (cpuCount s) < 2 ^ 53"
      "of_nat (nat \<lceil>real (unat (cpuCount s)) / 3\<rceil>) < threadCount s"
      "of_nat (nat \<lceil>real (unat (cpuCount s)) / 3\<rceil>)
           \<le> runningTaskCount s THREAD_TYPE_WASM_COMPILE_TIER2"
    using limit_reached [OF that(4,5)] by (simp add: under [OF that(1,2,3)])
  have bypass: "canStartWasmCompile s Tier2 = Inr (wasmWorklist_tier2 s \<noteq> [])"
    if "1 < cpuCount s" "length (wasmTier2GeneratorWorklist s) \<le> 20"
      "unat (cpuCount s) < 2 ^ 53"
      "threadCount s \<le> of_nat (nat \<lceil>real (unat (cpuCount s)) / 3\<rceil>)"
    using limit_bypassed [OF that(4)] by (simp add: under [OF that(1,2,3)])
  show ?thesis
    using tier1 tier1' over under bound bypass by blast
qed

text \<open>
  On \<open>exampleBacklog\<close> tier-1 is refused and tier-2 admitted; on \<open>exampleThrottled\<close>,
  where \<open>ceil (8 / 3) = 3\<close> tier-2 compilations run, tier-2 is refused.
\<close>

theorem wasm_tier_split_policy_witness:
  "1 < cpuCount exampleBacklog \<and>
   20 < length (wasmTier2GeneratorWorklist exampleBacklog) \<and>
   canStartWasmCompile exampleBacklog Tier1 = Inr False \<and>
   canStartWasmCompile exampleBacklog Tier2 = Inr True \<and>
   1 < cpuCount exampleThrottled \<and>
   unat (cpuCount exampleThrottled) < 2 ^ 53 \<and>
   length (wasmTier2GeneratorWorklist exampleThrottled) \<le> 20 \<and>
   threadCount exampleThrottled = 8 \<and>
   runningTaskCount exampleThrottled THREAD_TYPE_WASM_COMPILE_TIER2 = 3 \<and>
   canStartWasmCompile exampleThrottled Tier2 = Inr False"
proof -
  have b1: "1 < cpuCount exampleBacklog"
    and b2: "20 < length (wasmTier2GeneratorWorklist exampleBacklog)"
    by (simp_all add: exampleBacklog_def example_defs)
  have t1: "1 < cpuCount exampleThrottled"
    and t2: "length (wasmTier2GeneratorWorklist exampleThrottled) \<le> 20"
    and t3: "runningTaskCount exampleThrottled THREAD_TYPE_WASM_COMPILE_TIER2 = 3"
    and t4: "of_nat (nat \<lceil>real (unat (cpuCount exampleThrottled)) / 3\<rceil>) = (3 :: size_t)"
    and t5: "threadCount exampleThrottled = 8"
    and t8: "unat (cpuCount exampleThrottled) < 2 ^ 53"
    by (simp_all add: exampleThrottled_def example_defs)
  have tier1: "canStartWasmCompile exampleBacklog Tier1 = Inr False"
    using wasm_tier_split_policy [of exampleBacklog] b1 b2 by blast
  have "canStartWasmCompile exampleBacklog Tier2 =
          Inr (wasmWorklist_tier2 exampleBacklog \<noteq> [] \<and>
               maxWasmCompilationThreads exampleBacklog \<noteq> 0 \<and>
               checkTaskThreadLimit exampleBacklog THREAD_TYPE_WASM_COMPILE_TIER2
                 (maxWasmCompilationThreads exampleBacklog) False)"
    using wasm_tier_split_policy [of exampleBacklog] b1 b2 by blast
  then have tier2: "canStartWasmCompile exampleBacklog Tier2 = Inr True"
    by (simp add: exampleBacklog_def example_defs maxWasmCompilationThreads_def
        IsHelperThreadSimulatingOOM_def checkTaskThreadLimit_def)
  have t6: "of_nat (nat \<lceil>real (unat (cpuCount exampleThrottled)) / 3\<rceil>)
            < threadCount exampleThrottled"
    and t7: "of_nat (nat \<lceil>real (unat (cpuCount exampleThrottled)) / 3\<rceil>)
            \<le> runningTaskCount exampleThrottled THREAD_TYPE_WASM_COMPILE_TIER2"
    by (simp_all only: t3 t4 t5) simp_all
  have "canStartWasmCompile exampleThrottled Tier2 = Inr False"
    using wasm_tier_split_policy [of exampleThrottled] t1 t2 t6 t7 t8 by blast
  with b1 b2 t1 t2 t3 t5 t8 tier1 tier2 show ?thesis
    by simp
qed

lemma reachable_exampleOneThreadWasm: "reachable exampleOneThreadWasm"
proof -
  have "submitTask (SubmitWasmCompile 1 Tier2) True exampleOneThread
      = Inr (True, exampleOneThreadWasmA)"
    by (simp add: exampleOneThreadWasmA_def one_thread_defs eval_defs physCores_two)
  with reachable_exampleOneThread have "reachable exampleOneThreadWasmA"
    by (rule reachable.submitted)
  moreover have "submitTask (SubmitWasmCompile 2 Tier2) True exampleOneThreadWasmA
      = Inr (True, exampleOneThreadWasmAB)"
    by (simp add: exampleOneThreadWasmA_def exampleOneThreadWasmAB_def one_thread_defs
        eval_defs physCores_two)
  ultimately have r: "reachable exampleOneThreadWasmAB"
    by (rule reachable.submitted)
  have "totalCountRunningTasks exampleOneThreadWasmAB < threadCount exampleOneThreadWasmAB"
    and "findHighestPriorityTask
        (exampleOneThreadWasmAB\<lparr> tasksPending := tasksPending exampleOneThreadWasmAB - 1 \<rparr>)
      = Inr (Some (WasmCompileTask Tier2 1),
             exampleOneThreadWasmAB\<lparr> tasksPending := 0, wasmWorklist_tier2 := [2] \<rparr>)"
    and "WasmCompileTask Tier2 1 \<notin> set (helperTasks exampleOneThreadWasmAB)"
    by (simp_all add: exampleOneThreadWasmAB_def one_thread_defs findHighestPriorityTask_def
        selectors_def selector_defs eval_defs physCores_two)
  with r show ?thesis
    unfolding exampleOneThreadWasm_def by (rule reachable.started)
qed

text \<open>
  Claim C6, the case it misses. On a machine with two CPUs and a pool of one thread the
  budget \<open>ceil (2 / 3) = 1\<close> is not below the thread count. The state in which the one
  thread runs a tier-2 compilation is reachable, the backlog is empty, and tier-2
  compilation is admitted although as many tier-2 compilations run as the budget
  allows.
\<close>

theorem tier2_budget_bypassed_counterexample:
  "reachable exampleOneThreadWasm \<and>
   cpuCount exampleOneThreadWasm = 2 \<and>
   threadCount exampleOneThreadWasm = 1 \<and>
   length (wasmTier2GeneratorWorklist exampleOneThreadWasm) \<le> 20 \<and>
   nat \<lceil>real (unat (cpuCount exampleOneThreadWasm)) / 3\<rceil> = 1 \<and>
   helperTasks exampleOneThreadWasm = [WasmCompileTask Tier2 1] \<and>
   runningTaskCount exampleOneThreadWasm THREAD_TYPE_WASM_COMPILE_TIER2 = 1 \<and>
   canStartWasmCompile exampleOneThreadWasm Tier2 = Inr True"
proof -
  have "cpuCount exampleOneThreadWasm = 2"
    and "threadCount exampleOneThreadWasm = 1"
    and "length (wasmTier2GeneratorWorklist exampleOneThreadWasm) \<le> 20"
    and "helperTasks exampleOneThreadWasm = [WasmCompileTask Tier2 1]"
    and "runningTaskCount exampleOneThreadWasm THREAD_TYPE_WASM_COMPILE_TIER2 = 1"
    and "canStartWasmCompile exampleOneThreadWasm Tier2 = Inr True"
    by (simp_all add: exampleOneThreadWasm_def exampleOneThreadWasmAB_def one_thread_defs
        eval_defs physCores_two)
  moreover from this(1) have "nat \<lceil>real (unat (cpuCount exampleOneThreadWasm)) / 3\<rceil> = 1"
    by (simp add: ceil_third)
  ultimately show ?thesis
    using reachable_exampleOneThreadWasm by simp
qed

subsection \<open>Cancellation of Ion compilations\<close>

lemma sameOwners_matches:
  "sameOwners s s' \<Longrightarrow> IonCompileTaskMatches s' selector task = IonCompileTaskMatches s selector task"
  by (cases selector) (simp_all add: sameOwners_def)

lemma sameOwners_refl: "sameOwners s s"
  by (simp add: sameOwners_def)

lemma sameOwners_trans: "sameOwners s s1 \<Longrightarrow> sameOwners s1 s2 \<Longrightarrow> sameOwners s s2"
  by (simp add: sameOwners_def)

lemma unat_length:
  assumes "length xs < 2 ^ 64"
  shows "unat (of_nat (length xs) :: size_t) = length xs"
  using assms by (simp add: unat_of_nat)

lemma index_in_range:
  assumes "length xs < 2 ^ 64"
  shows "(i < (of_nat (length xs) :: size_t)) = (unat i < length xs)"
  using assms by (simp add: word_less_nat_alt unat_of_nat)

lemma remove_index_list:
  assumes "length xs < 2 ^ 64" and "unat i < length xs"
  shows "fst (remove_index xs i) = butlast (xs[unat i := last xs])"
proof (cases "i = of_nat (length xs) - 1")
  case False
  then show ?thesis by (simp add: remove_index_def)
next
  case True
  have len: "unat (of_nat (length xs) :: size_t) = length xs"
    using assms(1) by (rule unat_length)
  with assms(2) have "0 < unat (of_nat (length xs) :: size_t)"
    by linarith
  then have "(of_nat (length xs) :: size_t) \<noteq> 0"
    using unat_gt_0 by blast
  then have "unat (of_nat (length xs) - 1 :: size_t) = unat (of_nat (length xs) :: size_t) - 1"
    by (rule unat_minus_one)
  with True len have "unat i = length xs - 1"
    by simp
  moreover from assms(2) have "xs \<noteq> []" by auto
  ultimately have "xs[unat i := last xs] = xs"
    by (simp add: last_conv_nth list_update_same_conv)
  with True show ?thesis by (simp add: remove_index_def)
qed

lemma remove_index_index: "snd (remove_index xs i) + 1 = i"
  by (simp add: remove_index_def)

lemma take_removed:
  assumes "n < length xs"
  shows "take n (butlast (xs[n := y])) = take n xs"
  using assms by (simp add: take_butlast)

lemma set_removed:
  "set (butlast (xs[n := last xs])) \<subseteq> set xs"
proof (cases "xs = []")
  case True
  then show ?thesis by simp
next
  case False
  have "set (butlast (xs[n := last xs])) \<subseteq> set (xs[n := last xs])"
    by (meson in_set_butlastD subsetI)
  also have "\<dots> \<subseteq> insert (last xs) (set xs)"
    by (rule set_update_subset_insert)
  also have "\<dots> = set xs"
    using False by auto
  finally show ?thesis .
qed


lemma cancelPendingLoop_unfold:
  "cancelPendingLoop selector i s =
     (if i < of_nat (length (ionWorklist s)) then
        (if IonCompileTaskMatches s selector (ionWorklist s ! unat i) then
           cancelPendingLoop selector i
             ((FinishOffThreadIonCompile (ionWorklist s ! unat i)
                 (s\<lparr> ionObj := (ionObj s)(ionWorklist s ! unat i :=
                       (ionObj s (ionWorklist s ! unat i))\<lparr> lifoAllocReadOnly := False \<rparr>) \<rparr>))
              \<lparr> ionWorklist := fst (remove_index (ionWorklist s) i) \<rparr>)
         else cancelPendingLoop selector (i + 1) s)
      else s)"
  by (subst cancelPendingLoop.simps)
     (simp add: Let_def FinishOffThreadIonCompile_def remove_index_index split: prod.splits,
      simp add: remove_index_def)

lemma pending_loop:
  assumes "vectorsFit s" and "unat i \<le> length (ionWorklist s)"
    and "\<forall>task \<in> set (take (unat i) (ionWorklist s)). \<not> IonCompileTaskMatches s selector task"
  shows "(\<forall>task \<in> set (ionWorklist (cancelPendingLoop selector i s)).
            \<not> IonCompileTaskMatches (cancelPendingLoop selector i s) selector task) \<and>
         helperTasks (cancelPendingLoop selector i s) = helperTasks s \<and>
         ionLazyLinkList (cancelPendingLoop selector i s) = ionLazyLinkList s \<and>
         sameOwners s (cancelPendingLoop selector i s) \<and>
         vectorsFit (cancelPendingLoop selector i s)"
  using assms
proof (induction "2 * length (ionWorklist s) - unat i" arbitrary: i s rule: less_induct)
  case less
  let ?wl = "ionWorklist s"
  have fit: "length ?wl < 2 ^ 64"
    using less.prems(1) by (simp add: vectorsFit_def)
  show ?case
  proof (cases "unat i < length ?wl")
    case False
    with less.prems(2) have "unat i = length ?wl" by simp
    with less.prems(3) have "\<forall>task \<in> set ?wl. \<not> IonCompileTaskMatches s selector task"
      by simp
    moreover have "cancelPendingLoop selector i s = s"
      using False fit by (subst cancelPendingLoop_unfold) (simp add: index_in_range)
    ultimately show ?thesis
      using less.prems(1) by (simp add: sameOwners_refl)
  next
    case True
    then have cond: "i < of_nat (length ?wl)"
      using fit by (simp add: index_in_range)
    let ?task = "?wl ! unat i"
    show ?thesis
    proof (cases "IonCompileTaskMatches s selector ?task")
      case False
      have eq: "cancelPendingLoop selector i s = cancelPendingLoop selector (i + 1) s"
        using cond False by (subst cancelPendingLoop_unfold) simp
      have inc: "unat (i + 1) = unat i + 1"
        using cond by (rule unat_inc)
      have "take (unat i + 1) ?wl = take (unat i) ?wl @ [?task]"
        using True by (simp add: take_Suc_conv_app_nth)
      with less.prems(3) False
      have "\<forall>task \<in> set (take (unat (i + 1)) ?wl). \<not> IonCompileTaskMatches s selector task"
        by (simp add: inc)
      moreover have "2 * length ?wl - unat (i + 1) < 2 * length ?wl - unat i"
        using True inc by simp
      moreover have "unat (i + 1) \<le> length ?wl"
        using True inc by simp
      ultimately show ?thesis
        unfolding eq using less.hyps [of s "i + 1"] less.prems(1) by blast
    next
      case match: True
      let ?s1 = "s\<lparr> ionObj := (ionObj s)(?task := (ionObj s ?task)\<lparr> lifoAllocReadOnly := False \<rparr>) \<rparr>"
      let ?s' = "(FinishOffThreadIonCompile ?task ?s1)\<lparr> ionWorklist := fst (remove_index ?wl i) \<rparr>"
      have eq: "cancelPendingLoop selector i s = cancelPendingLoop selector i ?s'"
        using cond match by (subst cancelPendingLoop_unfold) simp
      have wl': "ionWorklist ?s' = butlast (?wl[unat i := last ?wl])"
        using remove_index_list [OF fit True] by simp
      have own: "sameOwners s ?s'"
        by (simp add: sameOwners_def FinishOffThreadIonCompile_def Let_def)
      have len: "length (ionWorklist ?s') = length ?wl - 1"
        by (simp add: wl')
      have fit': "vectorsFit ?s'"
        using less.prems(1) True remove_index_list [OF fit True]
        by (simp add: vectorsFit_def FinishOffThreadIonCompile_def Let_def)
      have "take (unat i) (ionWorklist ?s') = take (unat i) ?wl"
        unfolding wl' using True by (rule take_removed)
      with less.prems(3)
      have inv': "\<forall>task \<in> set (take (unat i) (ionWorklist ?s')).
          \<not> IonCompileTaskMatches ?s' selector task"
        by (simp only: sameOwners_matches [OF own])
      have bound': "unat i \<le> length (ionWorklist ?s')"
        using True len by simp
      have "2 * length (ionWorklist ?s') - unat i < 2 * length ?wl - unat i"
        using True len by simp
      from less.hyps [OF this fit' bound' inv']
      have IH: "(\<forall>task \<in> set (ionWorklist (cancelPendingLoop selector i ?s')).
            \<not> IonCompileTaskMatches (cancelPendingLoop selector i ?s') selector task) \<and>
         helperTasks (cancelPendingLoop selector i ?s') = helperTasks ?s' \<and>
         ionLazyLinkList (cancelPendingLoop selector i ?s') = ionLazyLinkList ?s' \<and>
         sameOwners ?s' (cancelPendingLoop selector i ?s') \<and>
         vectorsFit (cancelPendingLoop selector i ?s')" .
      have "helperTasks ?s' = helperTasks s" "ionLazyLinkList ?s' = ionLazyLinkList s"
        by (simp_all add: FinishOffThreadIonCompile_def Let_def)
      with IH own show ?thesis
        unfolding eq by (auto intro: sameOwners_trans)
    qed
  qed
qed


lemma cancelFinishedLoop_unfold:
  "cancelFinishedLoop selector i s =
     (if i < of_nat (length (ionFinishedList s)) then
        (if IonCompileTaskMatches s selector (ionFinishedList s ! unat i) then
           cancelFinishedLoop selector i
             ((FinishOffThreadTask (runtimeFromAnyThread (ionObj s (ionFinishedList s ! unat i)))
                 (ionFinishedList s ! unat i)
                 (s\<lparr> numFinishedOffThreadTasks := (numFinishedOffThreadTasks s)
                       (runtimeFromAnyThread (ionObj s (ionFinishedList s ! unat i)) :=
                          numFinishedOffThreadTasks s
                            (runtimeFromAnyThread (ionObj s (ionFinishedList s ! unat i))) - 1) \<rparr>))
              \<lparr> ionFinishedList := fst (remove_index (ionFinishedList s) i) \<rparr>)
         else cancelFinishedLoop selector (i + 1) s)
      else s)"
  by (subst cancelFinishedLoop.simps)
     (simp add: Let_def FinishOffThreadTask_def remove_index_index split: prod.splits,
      simp add: remove_index_def)

lemma finished_loop:
  assumes "length (ionFinishedList s) < 2 ^ 64" and "unat i \<le> length (ionFinishedList s)"
    and "\<forall>task \<in> set (take (unat i) (ionFinishedList s)). \<not> IonCompileTaskMatches s selector task"
  shows "(\<forall>task \<in> set (ionFinishedList (cancelFinishedLoop selector i s)).
            \<not> IonCompileTaskMatches (cancelFinishedLoop selector i s) selector task) \<and>
         helperTasks (cancelFinishedLoop selector i s) = helperTasks s \<and>
         ionWorklist (cancelFinishedLoop selector i s) = ionWorklist s \<and>
         sameOwners s (cancelFinishedLoop selector i s)"
  using assms
proof (induction "2 * length (ionFinishedList s) - unat i" arbitrary: i s rule: less_induct)
  case less
  let ?fl = "ionFinishedList s"
  note fit = less.prems(1)
  show ?case
  proof (cases "unat i < length ?fl")
    case False
    with less.prems(2) have "unat i = length ?fl" by simp
    with less.prems(3) have "\<forall>task \<in> set ?fl. \<not> IonCompileTaskMatches s selector task"
      by simp
    moreover have "cancelFinishedLoop selector i s = s"
      using False fit by (subst cancelFinishedLoop_unfold) (simp add: index_in_range)
    ultimately show ?thesis
      by (simp add: sameOwners_refl)
  next
    case True
    then have cond: "i < of_nat (length ?fl)"
      using fit by (simp add: index_in_range)
    let ?task = "?fl ! unat i"
    show ?thesis
    proof (cases "IonCompileTaskMatches s selector ?task")
      case False
      have eq: "cancelFinishedLoop selector i s = cancelFinishedLoop selector (i + 1) s"
        using cond False by (subst cancelFinishedLoop_unfold) simp
      have inc: "unat (i + 1) = unat i + 1"
        using cond by (rule unat_inc)
      have "take (unat i + 1) ?fl = take (unat i) ?fl @ [?task]"
        using True by (simp add: take_Suc_conv_app_nth)
      with less.prems(3) False
      have "\<forall>task \<in> set (take (unat (i + 1)) ?fl). \<not> IonCompileTaskMatches s selector task"
        by (simp add: inc)
      moreover have "2 * length ?fl - unat (i + 1) < 2 * length ?fl - unat i"
        using True inc by simp
      moreover have "unat (i + 1) \<le> length ?fl"
        using True inc by simp
      ultimately show ?thesis
        unfolding eq using less.hyps [of s "i + 1"] fit by blast
    next
      case match: True
      let ?rt = "runtimeFromAnyThread (ionObj s ?task)"
      let ?s1 = "s\<lparr> numFinishedOffThreadTasks :=
          (numFinishedOffThreadTasks s)(?rt := numFinishedOffThreadTasks s ?rt - 1) \<rparr>"
      let ?s' = "(FinishOffThreadTask ?rt ?task ?s1)\<lparr> ionFinishedList := fst (remove_index ?fl i) \<rparr>"
      have eq: "cancelFinishedLoop selector i s = cancelFinishedLoop selector i ?s'"
        using cond match by (subst cancelFinishedLoop_unfold) simp
      have fl': "ionFinishedList ?s' = butlast (?fl[unat i := last ?fl])"
        using remove_index_list [OF fit True] by simp
      have own: "sameOwners s ?s'"
        by (simp add: sameOwners_def FinishOffThreadTask_def)
      have len: "length (ionFinishedList ?s') = length ?fl - 1"
        by (simp add: fl')
      have fit': "length (ionFinishedList ?s') < 2 ^ 64"
        using fit len by simp
      have "take (unat i) (ionFinishedList ?s') = take (unat i) ?fl"
        unfolding fl' using True by (rule take_removed)
      with less.prems(3)
      have inv': "\<forall>task \<in> set (take (unat i) (ionFinishedList ?s')).
          \<not> IonCompileTaskMatches ?s' selector task"
        by (simp only: sameOwners_matches [OF own])
      have bound': "unat i \<le> length (ionFinishedList ?s')"
        using True len by simp
      have "2 * length (ionFinishedList ?s') - unat i < 2 * length ?fl - unat i"
        using True len by simp
      from less.hyps [OF this fit' bound' inv']
      have IH: "(\<forall>task \<in> set (ionFinishedList (cancelFinishedLoop selector i ?s')).
            \<not> IonCompileTaskMatches (cancelFinishedLoop selector i ?s') selector task) \<and>
         helperTasks (cancelFinishedLoop selector i ?s') = helperTasks ?s' \<and>
         ionWorklist (cancelFinishedLoop selector i ?s') = ionWorklist ?s' \<and>
         sameOwners ?s' (cancelFinishedLoop selector i ?s')" .
      have "helperTasks ?s' = helperTasks s" "ionWorklist ?s' = ionWorklist s"
        by (simp_all add: FinishOffThreadTask_def)
      with IH own show ?thesis
        unfolding eq by (auto intro: sameOwners_trans)
    qed
  qed
qed

lemma running_loop:
  assumes "cancelRunningLoop selector helpers (s, cancelled) = (s', cancelled')"
  shows "sameOwners s s' \<and> ionWorklist s' = ionWorklist s \<and> helperTasks s' = helperTasks s \<and>
         ionFinishedList s' = ionFinishedList s \<and>
         (cancelled' \<longleftrightarrow> cancelled \<or>
            (\<exists>task. IonCompileTask task \<in> set helpers \<and> IonCompileTaskMatches s selector task))"
  using assms
proof (induction helpers arbitrary: s cancelled)
  case Nil
  then show ?case by (simp add: sameOwners_refl)
next
  case (Cons helper rest)
  show ?case
  proof (cases "\<exists>task. helper = IonCompileTask task \<and> IonCompileTaskMatches s selector task")
    case False
    with Cons.prems have "cancelRunningLoop selector rest (s, cancelled) = (s', cancelled')"
      by (auto split: HelperThreadTask.splits if_splits)
    from Cons.IH [OF this] False show ?thesis
      by auto
  next
    case True
    then obtain task where task: "helper = IonCompileTask task"
      "IonCompileTaskMatches s selector task" by blast
    let ?s1 = "s\<lparr> ionObj := (ionObj s)(task := (ionObj s task)\<lparr> mirGenCancelled := True \<rparr>) \<rparr>"
    have own: "sameOwners s ?s1"
      by (simp add: sameOwners_def)
    from Cons.prems task have "cancelRunningLoop selector rest (?s1, True) = (s', cancelled')"
      by simp
    from Cons.IH [OF this] own task show ?thesis
      by (auto intro: sameOwners_trans)
  qed
qed


lemma wait_loop:
  assumes env_work: "\<forall>s. (\<forall>task \<in> set (ionWorklist s). \<not> IonCompileTaskMatches s selector task) \<longrightarrow>
          (\<forall>task \<in> set (ionWorklist (wait s)). \<not> IonCompileTaskMatches (wait s) selector task)"
    and env_fit: "\<forall>s. vectorsFit s \<longrightarrow> vectorsFit (wait s)"
    and quiet: "\<not> matchingRunning (waitRounds wait selector n s) selector"
    and clean: "\<forall>task \<in> set (ionWorklist s). \<not> IonCompileTaskMatches s selector task"
    and fit: "vectorsFit s"
  shows "\<exists>s2. waitForInProgress wait selector s = Some s2 \<and>
           \<not> matchingRunning s2 selector \<and>
           (\<forall>task \<in> set (ionWorklist s2). \<not> IonCompileTaskMatches s2 selector task) \<and>
           vectorsFit s2"
  using quiet clean fit
proof (induction n arbitrary: s)
  case 0
  obtain s1 cancelled where loop: "cancelRunningLoop selector (helperTasks s) (s, False) = (s1, cancelled)"
    by (cases "cancelRunningLoop selector (helperTasks s) (s, False)")
  note r = running_loop [OF loop]
  from r have own: "sameOwners s s1" by blast
  from 0(1) r have "\<not> cancelled"
    by (simp add: matchingRunning_def)
  with loop have "waitForInProgress wait selector s = Some s1"
    by (subst waitForInProgress.simps) simp
  moreover from r 0(1) have "\<not> matchingRunning s1 selector"
    by (simp add: matchingRunning_def sameOwners_matches [OF own])
  moreover from r 0(2) have "\<forall>task \<in> set (ionWorklist s1). \<not> IonCompileTaskMatches s1 selector task"
    by (simp add: sameOwners_matches [OF own])
  moreover from r 0(3) have "vectorsFit s1"
    by (simp add: vectorsFit_def)
  ultimately show ?case by blast
next
  case (Suc n)
  obtain s1 cancelled where loop: "cancelRunningLoop selector (helperTasks s) (s, False) = (s1, cancelled)"
    by (cases "cancelRunningLoop selector (helperTasks s) (s, False)")
  note r = running_loop [OF loop]
  from r have own: "sameOwners s s1" by blast
  from r Suc.prems(2) have clean1: "\<forall>task \<in> set (ionWorklist s1). \<not> IonCompileTaskMatches s1 selector task"
    by (simp add: sameOwners_matches [OF own])
  from r Suc.prems(3) have fit1: "vectorsFit s1"
    by (simp add: vectorsFit_def)
  show ?case
  proof (cases cancelled)
    case False
    with loop have "waitForInProgress wait selector s = Some s1"
      by (subst waitForInProgress.simps) simp
    moreover from r False have "\<not> matchingRunning s1 selector"
      by (simp add: matchingRunning_def sameOwners_matches [OF own])
    ultimately show ?thesis
      using clean1 fit1 by blast
  next
    case True
    with loop have eq: "waitForInProgress wait selector s = waitForInProgress wait selector (wait s1)"
      by (subst waitForInProgress.simps) simp
    from loop Suc.prems(1) have "\<not> matchingRunning (waitRounds wait selector n (wait s1)) selector"
      by simp
    moreover from env_work clean1
    have "\<forall>task \<in> set (ionWorklist (wait s1)). \<not> IonCompileTaskMatches (wait s1) selector task"
      by blast
    moreover from env_fit fit1 have "vectorsFit (wait s1)"
      by blast
    ultimately show ?thesis
      unfolding eq by (rule Suc.IH)
  qed
qed

lemma lazy_loop:
  "sameOwners s (cancelLazyLinkLoop selector runtime' tasks s) \<and>
   ionWorklist (cancelLazyLinkLoop selector runtime' tasks s) = ionWorklist s \<and>
   helperTasks (cancelLazyLinkLoop selector runtime' tasks s) = helperTasks s \<and>
   ionFinishedList (cancelLazyLinkLoop selector runtime' tasks s) = ionFinishedList s \<and>
   ionLazyLinkList (cancelLazyLinkLoop selector runtime' tasks s) runtime' =
     filter (\<lambda>task. \<not> (task \<in> set tasks \<and> IonCompileTaskMatches s selector task))
       (ionLazyLinkList s runtime')"
proof (induction tasks arbitrary: s)
  case Nil
  then show ?case by (simp add: sameOwners_refl)
next
  case (Cons task rest)
  show ?case
  proof (cases "IonCompileTaskMatches s selector task")
    case False
    have "filter (\<lambda>t. \<not> (t \<in> set (task # rest) \<and> IonCompileTaskMatches s selector t))
              (ionLazyLinkList s runtime') =
          filter (\<lambda>t. \<not> (t \<in> set rest \<and> IonCompileTaskMatches s selector t))
              (ionLazyLinkList s runtime')"
      using False by (auto intro: filter_cong)
    with False Cons.IH [of s] show ?thesis
      by simp
  next
    case True
    let ?s1 = "FinishOffThreadTask runtime' task s"
    have own: "sameOwners s ?s1"
      by (simp add: sameOwners_def FinishOffThreadTask_def)
    have "filter (\<lambda>t. \<not> (t \<in> set rest \<and> IonCompileTaskMatches ?s1 selector t))
              (ionLazyLinkList ?s1 runtime') =
          filter (\<lambda>t. \<not> (t \<in> set (task # rest) \<and> IonCompileTaskMatches s selector t))
              (ionLazyLinkList s runtime')"
      using True
      by (simp add: sameOwners_matches [OF own])
         (auto simp: FinishOffThreadTask_def removeAll_filter_not_eq intro: filter_cong)
    moreover have "ionWorklist ?s1 = ionWorklist s" "helperTasks ?s1 = helperTasks s"
      "ionFinishedList ?s1 = ionFinishedList s"
      by (simp_all add: FinishOffThreadTask_def)
    ultimately show ?thesis
      using True Cons.IH [of ?s1] own by (auto intro: sameOwners_trans)
  qed
qed

text \<open>
  Claim C4. \<open>CancelOffThreadIonCompileLocked\<close> is called on an initialised coordinator
  whose vectors fit in memory. While it waits, nobody queues a compilation that the
  selector matches (the owner's thread is the one waiting) and the vectors keep fitting.
  If after some number \<open>n\<close> of waits no matching compilation is running any more, the
  call returns, and in the state it leaves no Ion compile task that the selector matches
  is in the Ion worklist, in the registry, in the finished list or in the lazy-link list
  of the selector's runtime.
\<close>

theorem cancellation_completeness:
  assumes init: "isInitialized s" and fit: "vectorsFit s"
    and env_work: "\<forall>s. (\<forall>task \<in> set (ionWorklist s). \<not> IonCompileTaskMatches s selector task) \<longrightarrow>
          (\<forall>task \<in> set (ionWorklist (wait s)). \<not> IonCompileTaskMatches (wait s) selector task)"
    and env_fit: "\<forall>s. vectorsFit s \<longrightarrow> vectorsFit (wait s)"
    and quiet: "\<not> matchingRunning (waitRounds wait selector n (cancelPendingLoop selector 0 s)) selector"
  shows "\<exists>s'. CancelOffThreadIonCompileLocked wait selector s = Some s' \<and>
      (\<forall>task \<in> set (ionWorklist s'). \<not> IonCompileTaskMatches s' selector task) \<and>
      (\<forall>task. IonCompileTask task \<in> set (helperTasks s') \<longrightarrow>
               \<not> IonCompileTaskMatches s' selector task) \<and>
      (\<forall>task \<in> set (ionFinishedList s'). \<not> IonCompileTaskMatches s' selector task) \<and>
      (\<forall>task \<in> set (ionLazyLinkList s' (GetSelectorRuntime selector)).
               \<not> IonCompileTaskMatches s' selector task)"
proof -
  let ?s1 = "cancelPendingLoop selector 0 s"
  have p: "(\<forall>task \<in> set (ionWorklist ?s1). \<not> IonCompileTaskMatches ?s1 selector task) \<and>
      helperTasks ?s1 = helperTasks s \<and> ionLazyLinkList ?s1 = ionLazyLinkList s \<and>
      sameOwners s ?s1 \<and> vectorsFit ?s1"
    using fit by (intro pending_loop) simp_all
  then have clean1: "\<forall>task \<in> set (ionWorklist ?s1). \<not> IonCompileTaskMatches ?s1 selector task"
    and fit1: "vectorsFit ?s1"
    by blast+
  from wait_loop [OF env_work env_fit quiet clean1 fit1]
  obtain s2 where s2: "waitForInProgress wait selector ?s1 = Some s2"
    "\<not> matchingRunning s2 selector"
    "\<forall>task \<in> set (ionWorklist s2). \<not> IonCompileTaskMatches s2 selector task"
    "vectorsFit s2"
    by blast
  let ?s3 = "cancelFinishedLoop selector 0 s2"
  have "length (ionFinishedList s2) < 2 ^ 64"
    using s2(4) by (simp add: vectorsFit_def)
  then have f: "(\<forall>task \<in> set (ionFinishedList ?s3). \<not> IonCompileTaskMatches ?s3 selector task) \<and>
      helperTasks ?s3 = helperTasks s2 \<and> ionWorklist ?s3 = ionWorklist s2 \<and>
      sameOwners s2 ?s3"
    by (intro finished_loop) simp_all
  then have own3: "sameOwners s2 ?s3" by blast
  let ?rt = "GetSelectorRuntime selector"
  let ?s4 = "cancelLazyLinkLoop selector ?rt (ionLazyLinkList ?s3 ?rt) ?s3"
  note l = lazy_loop [of ?s3 selector ?rt "ionLazyLinkList ?s3 ?rt"]
  then have own4: "sameOwners ?s3 ?s4" by blast
  have m4: "IonCompileTaskMatches ?s4 selector task = IonCompileTaskMatches s2 selector task"
    for task
    using sameOwners_matches [OF own4] sameOwners_matches [OF own3] by simp
  have m3: "IonCompileTaskMatches ?s3 selector task = IonCompileTaskMatches s2 selector task"
    for task
    using sameOwners_matches [OF own3] by simp
  have result: "CancelOffThreadIonCompileLocked wait selector s = Some ?s4"
    using init s2(1) by (simp add: CancelOffThreadIonCompileLocked_def Let_def)
  have "\<forall>task \<in> set (ionWorklist ?s4). \<not> IonCompileTaskMatches ?s4 selector task"
    using l f s2(3) by (simp add: m4)
  moreover have "\<forall>task. IonCompileTask task \<in> set (helperTasks ?s4) \<longrightarrow>
      \<not> IonCompileTaskMatches ?s4 selector task"
    using l f s2(2) by (simp add: m4 matchingRunning_def)
  moreover have "\<forall>task \<in> set (ionFinishedList ?s4). \<not> IonCompileTaskMatches ?s4 selector task"
    using l f by (simp add: m4 m3)
  moreover have "\<forall>task \<in> set (ionLazyLinkList ?s4 ?rt). \<not> IonCompileTaskMatches ?s4 selector task"
    using l by (simp add: m4 m3)
  ultimately show ?thesis
    using result by blast
qed

lemma exampleWait_env:
  "\<forall>s. (\<forall>task \<in> set (ionWorklist s). \<not> IonCompileTaskMatches s selector task) \<longrightarrow>
        (\<forall>task \<in> set (ionWorklist (exampleWait s)).
           \<not> IonCompileTaskMatches (exampleWait s) selector task)"
  "\<forall>s. vectorsFit s \<longrightarrow> vectorsFit (exampleWait s)"
proof -
  have own: "sameOwners s (exampleWait s)" and same: "ionWorklist (exampleWait s) = ionWorklist s"
    for s
    by (simp_all add: exampleWait_def Let_def sameOwners_def FinishOffThreadIonCompile_def
        runTaskLocked_end_def)
  show "\<forall>s. (\<forall>task \<in> set (ionWorklist s). \<not> IonCompileTaskMatches s selector task) \<longrightarrow>
        (\<forall>task \<in> set (ionWorklist (exampleWait s)).
           \<not> IonCompileTaskMatches (exampleWait s) selector task)"
    by (simp add: same sameOwners_matches [OF own])
  show "\<forall>s. vectorsFit s \<longrightarrow> vectorsFit (exampleWait s)"
    by (simp add: exampleWait_def Let_def)
qed

lemmas cancel_example_defs = exampleCancel_def exampleCancelObj_def example_defs
  remove_index_def FinishOffThreadIonCompile_def FinishOffThreadTask_def

lemma examplePending:
  "cancelPendingLoop (SelRuntime 7) 0 exampleCancel = exampleCancel1"
  apply (subst cancelPendingLoop_unfold)
  apply (simp add: cancel_example_defs)
  apply (subst cancelPendingLoop_unfold)
  apply (simp add: cancel_example_defs)
  apply (subst cancelPendingLoop_unfold)
  apply (simp add: exampleCancel1_def cancel_example_defs)
  done

text \<open>
  On the example every one of the four containers holds a compilation of runtime 7
  before the call; the call returns after one wait and nothing of runtime 7 is left.
\<close>

theorem cancellation_completeness_witness:
  "isInitialized exampleCancel \<and> vectorsFit exampleCancel \<and>
   1 \<in> set (ionWorklist exampleCancel) \<and> IonCompileTaskMatches exampleCancel (SelRuntime 7) 1 \<and>
   IonCompileTask 2 \<in> set (helperTasks exampleCancel) \<and>
   IonCompileTaskMatches exampleCancel (SelRuntime 7) 2 \<and>
   3 \<in> set (ionFinishedList exampleCancel) \<and> IonCompileTaskMatches exampleCancel (SelRuntime 7) 3 \<and>
   4 \<in> set (ionLazyLinkList exampleCancel 7) \<and> IonCompileTaskMatches exampleCancel (SelRuntime 7) 4 \<and>
   (\<exists>s'. CancelOffThreadIonCompileLocked exampleWait (SelRuntime 7) exampleCancel = Some s' \<and>
      (\<forall>task \<in> set (ionWorklist s'). \<not> IonCompileTaskMatches s' (SelRuntime 7) task) \<and>
      (\<forall>task. IonCompileTask task \<in> set (helperTasks s') \<longrightarrow>
               \<not> IonCompileTaskMatches s' (SelRuntime 7) task) \<and>
      (\<forall>task \<in> set (ionFinishedList s'). \<not> IonCompileTaskMatches s' (SelRuntime 7) task) \<and>
      (\<forall>task \<in> set (ionLazyLinkList s' 7). \<not> IonCompileTaskMatches s' (SelRuntime 7) task))"
proof -
  have init: "isInitialized exampleCancel" and fit: "vectorsFit exampleCancel"
    by (simp_all add: vectorsFit_def cancel_example_defs)
  have before: "1 \<in> set (ionWorklist exampleCancel)"
    "IonCompileTaskMatches exampleCancel (SelRuntime 7) 1"
    "IonCompileTask 2 \<in> set (helperTasks exampleCancel)"
    "IonCompileTaskMatches exampleCancel (SelRuntime 7) 2"
    "3 \<in> set (ionFinishedList exampleCancel)"
    "IonCompileTaskMatches exampleCancel (SelRuntime 7) 3"
    "4 \<in> set (ionLazyLinkList exampleCancel 7)"
    "IonCompileTaskMatches exampleCancel (SelRuntime 7) 4"
    by (simp_all add: cancel_example_defs)
  have "helperTasks (waitRounds exampleWait (SelRuntime 7) 1 exampleCancel1) = []"
    by (simp add: exampleCancel1_def cancel_example_defs exampleWait_def vectorsFit_def
        runTaskLocked_end_def)
  then have quiet: "\<not> matchingRunning
      (waitRounds exampleWait (SelRuntime 7) 1 (cancelPendingLoop (SelRuntime 7) 0 exampleCancel))
      (SelRuntime 7)"
    by (simp only: examplePending matchingRunning_def) simp
  from cancellation_completeness [OF init fit exampleWait_env quiet] init fit before
  show ?thesis
    by simp
qed

end
